theory Spec2Isabelle
  imports Main "HOL-Library.Sublist" "HOL-Library.AList"
begin

section \<open>Strings and characters\<close>

text \<open>
  Strings of the TypeScript and Swift sources are modelled as \<^typ>\<open>string\<close>: a list of
  code units. The characters that cannot be written inside a string literal are named.
\<close>

definition dq :: string where "dq = [CHR 0x22]"

definition bs :: string where "bs = [CHR 0x5C]"

definition sq :: string where "sq = [CHR 0x27]"

definition nl :: string where "nl = [CHR 0x0A]"

text \<open>\<^verbatim>\<open>\w\<close> of a JavaScript regular expression without flags: \<^verbatim>\<open>[A-Za-z0-9_]\<close>.\<close>

definition isWordChar :: "char \<Rightarrow> bool" where
  "isWordChar c =
     (let n = (of_char c :: nat)
      in (65 \<le> n \<and> n \<le> 90) \<or> (97 \<le> n \<and> n \<le> 122) \<or> (48 \<le> n \<and> n \<le> 57) \<or> n = 95)"

section \<open>Template variables (src/cli/utils.ts, extractVariables)\<close>

text \<open>
  \<^verbatim>\<open>/\$\{(\w+)\}/g\<close> tried at the start of a string: a dollar sign, an opening brace, the
  longest run of word characters (at least one) and a closing brace. The run is greedy and
  a closing brace is no word character, so no shorter run can match either. The result is
  the captured name and the text after the match (where \<^verbatim>\<open>lastIndex\<close> points).
\<close>

fun matchPlaceholderAt :: "string \<Rightarrow> (string \<times> string) option" where
  "matchPlaceholderAt (a # b # rest) =
     (if a = CHR ''$'' \<and> b = CHR ''{'' then
        (case dropWhile isWordChar rest of
           [] \<Rightarrow> None
         | c # after \<Rightarrow>
             if takeWhile isWordChar rest \<noteq> [] \<and> c = CHR ''}''
             then Some (takeWhile isWordChar rest, after) else None)
      else None)"
| "matchPlaceholderAt _ = None"

lemma matchPlaceholderAt_shorter:
  "matchPlaceholderAt s = Some (name, rest) \<Longrightarrow> length rest < length s"
proof (induction s rule: matchPlaceholderAt.induct)
  case (1 a b r)
  from "1.prems" obtain c where d: "dropWhile isWordChar r = c # rest"
    by (auto split: if_splits list.splits)
  have "length (dropWhile isWordChar r) \<le> length r"
    by (rule length_dropWhile_le)
  with d show ?case by simp
qed simp_all

text \<open>
  The \<^verbatim>\<open>while ((match = regex.exec(message)) !== null)\<close> loop: the global regular
  expression finds the leftmost match at or after \<^verbatim>\<open>lastIndex\<close>, the captured name is
  pushed (it is never empty, so \<^verbatim>\<open>if (match[1])\<close> always holds) and the search goes on
  after the match.
\<close>

function extractVariables :: "string \<Rightarrow> string list" where
  "extractVariables [] = []"
| "extractVariables (c # cs) =
     (case matchPlaceholderAt (c # cs) of
        Some (name, rest) \<Rightarrow> name # extractVariables rest
      | None \<Rightarrow> extractVariables cs)"
  by pat_completeness auto
termination
  by (relation "measure length") (auto dest: matchPlaceholderAt_shorter)

text \<open>
  The words of the specification: a placeholder is \<^verbatim>\<open>${identifier}\<close> with a non-empty
  identifier of word characters; a template is a text, then placeholders each followed by
  a text.
\<close>

definition wordName :: "string \<Rightarrow> bool" where
  "wordName n = (n \<noteq> [] \<and> list_all isWordChar n)"

definition placeholder :: "string \<Rightarrow> string" where
  "placeholder n = ''${'' @ n @ ''}''"

definition hasPlaceholder :: "string \<Rightarrow> bool" where
  "hasPlaceholder t = (\<exists>pre n post. wordName n \<and> t = pre @ placeholder n @ post)"

fun template :: "string \<Rightarrow> (string \<times> string) list \<Rightarrow> string" where
  "template t0 [] = t0"
| "template t0 ((n, t) # segs) = t0 @ placeholder n @ template t segs"

section \<open>Properties of extractVariables\<close>

lemma matchPlaceholderAt_sound:
  assumes "matchPlaceholderAt s = Some (name, rest)"
  shows "wordName name \<and> s = placeholder name @ rest"
proof (cases s rule: matchPlaceholderAt.cases)
  case (1 a b r)
  with assms obtain c where
    ab: "a = CHR ''$''" "b = CHR ''{''" and
    d: "dropWhile isWordChar r = c # rest" and
    n: "name = takeWhile isWordChar r" "name \<noteq> []" and c: "c = CHR ''}''"
    by (auto split: if_splits list.splits)
  have "r = takeWhile isWordChar r @ dropWhile isWordChar r" by simp
  with d n c have r: "r = name @ CHR ''}'' # rest" by simp
  have "list_all isWordChar name"
    unfolding n(1) list_all_iff by (auto dest: set_takeWhileD)
  with n r ab 1 show ?thesis by (simp add: wordName_def placeholder_def)
qed (use assms in simp_all)

lemma matchPlaceholderAt_complete:
  assumes "wordName n"
  shows "matchPlaceholderAt (placeholder n @ rest) = Some (n, rest)"
proof -
  have nw: "\<not> isWordChar (CHR ''}'')" by (simp add: isWordChar_def)
  from assms have a: "\<forall>x\<in>set n. isWordChar x" and ne: "n \<noteq> []"
    by (auto simp: wordName_def list_all_iff)
  from a nw have t: "takeWhile isWordChar (n @ CHR ''}'' # rest) = n"
    by (simp add: takeWhile_append2)
  from a nw have d: "dropWhile isWordChar (n @ CHR ''}'' # rest) = CHR ''}'' # rest"
    by (simp add: dropWhile_append2)
  show ?thesis using t d ne by (simp add: placeholder_def)
qed

lemma placeholder_no_dollar_inside:
  assumes "wordName m" "placeholder m = u @ v" "u \<noteq> []" "v \<noteq> []"
  shows "hd v \<noteq> CHR ''$''"
proof -
  have nd: "\<not> isWordChar (CHR ''$'')" by (simp add: isWordChar_def)
  from assms(1) have a: "\<forall>x\<in>set m. isWordChar x" by (auto simp: wordName_def list_all_iff)
  have "placeholder m = CHR ''$'' # (CHR ''{'' # m @ ''}'')" by (simp add: placeholder_def)
  with assms(2,3) obtain u' where "u = CHR ''$'' # u'" and "CHR ''{'' # m @ ''}'' = u' @ v"
    by (cases u) auto
  then have "hd v \<in> set (CHR ''{'' # m @ ''}'')" using assms(4)
    by (metis hd_in_set in_set_conv_decomp le_sup_iff set_append subset_code(1) Un_iff)
  with a nd show ?thesis by auto
qed

lemma matchPlaceholderAt_before_placeholder:
  assumes np: "\<not> hasPlaceholder (c # t)" and wn: "wordName n"
  shows "matchPlaceholderAt ((c # t) @ placeholder n @ r) = None"
proof (rule ccontr)
  assume "matchPlaceholderAt ((c # t) @ placeholder n @ r) \<noteq> None"
  then obtain m r' where "matchPlaceholderAt ((c # t) @ placeholder n @ r) = Some (m, r')"
    by auto
  then have wm: "wordName m" and eq: "(c # t) @ placeholder n @ r = placeholder m @ r'"
    by (auto dest: matchPlaceholderAt_sound)
  from eq obtain us where
    "(c # t = placeholder m @ us \<and> us @ placeholder n @ r = r') \<or>
     ((c # t) @ us = placeholder m \<and> placeholder n @ r = us @ r')"
    unfolding append_eq_append_conv2 by blast
  then consider
      (inside) u where "c # t = placeholder m @ u"
    | (across) "us \<noteq> []" "placeholder m = (c # t) @ us" "placeholder n @ r = us @ r'"
    by (cases "us = []") auto
  then show False
  proof cases
    case inside
    with wm np show False unfolding hasPlaceholder_def by (metis append_Nil)
  next
    case across
    from across(3,1) have "hd us = CHR ''$''"
      by (cases us) (auto simp: placeholder_def)
    moreover have "hd us \<noteq> CHR ''$''"
      using placeholder_no_dollar_inside [OF wm across(2) _ across(1)] by simp
    ultimately show False by simp
  qed
qed

lemma hasPlaceholder_tail: "\<not> hasPlaceholder (c # t) \<Longrightarrow> \<not> hasPlaceholder t"
  unfolding hasPlaceholder_def by (metis append_Cons)

lemma extractVariables_plain: "\<not> hasPlaceholder t \<Longrightarrow> extractVariables t = []"
proof (induction t)
  case Nil
  show ?case by simp
next
  case (Cons c t)
  have "matchPlaceholderAt (c # t) = None"
  proof (rule ccontr)
    assume "matchPlaceholderAt (c # t) \<noteq> None"
    then obtain m r' where "matchPlaceholderAt (c # t) = Some (m, r')" by auto
    then have "wordName m" "c # t = placeholder m @ r'"
      by (auto dest: matchPlaceholderAt_sound)
    with Cons.prems show False unfolding hasPlaceholder_def by (metis append_Nil)
  qed
  with Cons hasPlaceholder_tail [OF Cons.prems] show ?case by simp
qed

lemma extractVariables_step:
  "\<not> hasPlaceholder t \<Longrightarrow> wordName n \<Longrightarrow>
   extractVariables (t @ placeholder n @ r) = n # extractVariables r"
proof (induction t)
  case Nil
  have "placeholder n @ r \<noteq> []" by (simp add: placeholder_def)
  then obtain c cs where "placeholder n @ r = c # cs" by (cases "placeholder n @ r") auto
  with matchPlaceholderAt_complete [OF Nil(2), of r] show ?case by simp
next
  case (Cons c t)
  from matchPlaceholderAt_before_placeholder [OF Cons.prems, of r]
       Cons.IH [OF hasPlaceholder_tail [OF Cons.prems(1)] Cons.prems(2)]
  show ?case by simp
qed

lemma extractVariables_template_gen:
  "\<not> hasPlaceholder t0 \<Longrightarrow> \<forall>(n, t) \<in> set segs. wordName n \<and> \<not> hasPlaceholder t \<Longrightarrow>
   extractVariables (template t0 segs) = map fst segs"
proof (induction segs arbitrary: t0)
  case Nil
  then show ?case by (simp add: extractVariables_plain)
next
  case (Cons s segs)
  obtain n t where s: "s = (n, t)" by (cases s)
  with Cons.prems have "wordName n" "\<not> hasPlaceholder t" by auto
  with Cons s show ?case by (simp add: extractVariables_step)
qed

lemma extractVariables_finds:
  assumes "hasPlaceholder t"
  shows "extractVariables t \<noteq> []"
proof -
  from assms obtain pre n post where n: "wordName n" and e: "t = pre @ placeholder n @ post"
    unfolding hasPlaceholder_def by blast
  from n have "extractVariables (pre @ placeholder n @ post) \<noteq> []"
  proof (induction pre)
    case Nil
    have "placeholder n @ post \<noteq> []" by (simp add: placeholder_def)
    then obtain c cs where "placeholder n @ post = c # cs"
      by (cases "placeholder n @ post") auto
    with matchPlaceholderAt_complete [OF Nil, of post] show ?case by simp
  next
    case (Cons c pre)
    then show ?case by (simp split: option.splits)
  qed
  with e show ?thesis by simp
qed

lemma no_dollar_no_placeholder: "CHR ''$'' \<notin> set t \<Longrightarrow> \<not> hasPlaceholder t"
  unfolding hasPlaceholder_def placeholder_def by auto

text \<open>
  Claim C9. For every template, that is a text followed by placeholders
  \<^verbatim>\<open>${name}\<close> (a non-empty name of word characters), each followed by a text, where the
  texts contain no placeholder, extractVariables returns the names in the order of their
  occurrence, a repeated name as often as it occurs. The template
  \<^verbatim>\<open>${a} mid ${b}${a}\<close> gives a, b, a, and a template without any placeholder gives the
  empty sequence.
\<close>

theorem extractVariables_order_duplicates:
  "(\<not> hasPlaceholder t0 \<and> (\<forall>(n, t) \<in> set segs. wordName n \<and> \<not> hasPlaceholder t)
      \<longrightarrow> extractVariables (template t0 segs) = map fst segs)
   \<and> extractVariables ''${a} mid ${b}${a}'' = [''a'', ''b'', ''a'']
   \<and> (\<not> hasPlaceholder t \<longrightarrow> extractVariables t = [])"
proof (intro conjI impI)
  assume "\<not> hasPlaceholder t0 \<and> (\<forall>(n, t) \<in> set segs. wordName n \<and> \<not> hasPlaceholder t)"
  then show "extractVariables (template t0 segs) = map fst segs"
    by (simp add: extractVariables_template_gen)
next
  show "extractVariables ''${a} mid ${b}${a}'' = [''a'', ''b'', ''a'']"
    by (simp add: isWordChar_def)
next
  assume "\<not> hasPlaceholder t"
  then show "extractVariables t = []" by (rule extractVariables_plain)
qed

theorem extractVariables_order_duplicates_witness:
  "extractVariables (template ''Timer '' [(''task'', '' ran '' ), (''n'', '' s, '' ), (''task'', ''!'')])
     = [''task'', ''n'', ''task'']
   \<and> extractVariables ''$name {invalid} ${}'' = []"
proof -
  have w: "wordName ''task''" "wordName ''n''"
    by (simp_all add: wordName_def isWordChar_def)
  have p: "\<not> hasPlaceholder ''Timer ''" "\<not> hasPlaceholder '' ran ''"
    "\<not> hasPlaceholder '' s, ''" "\<not> hasPlaceholder ''!''"
    by (simp_all add: no_dollar_no_placeholder)
  have q: "\<not> hasPlaceholder ''$name {invalid} ${}''"
  proof
    assume "hasPlaceholder ''$name {invalid} ${}''"
    then have "extractVariables ''$name {invalid} ${}'' \<noteq> []"
      by (rule extractVariables_finds)
    then show False by (simp add: isWordChar_def)
  qed
  from extractVariables_order_duplicates
         [of "''Timer ''" "[(''task'', '' ran '' ), (''n'', '' s, '' ), (''task'', ''!'')]"
             "''$name {invalid} ${}''"]
       w p q
  show ?thesis by simp
qed

section \<open>Text helpers shared by the generators\<close>

text \<open>\<^verbatim>\<open>str.replace(/c/g, r)\<close> for a single character \<open>c\<close>.\<close>

definition replaceAllChar :: "char \<Rightarrow> string \<Rightarrow> string \<Rightarrow> string" where
  "replaceAllChar c r s = concat (map (\<lambda>x. if x = c then r else [x]) s)"

text \<open>src/cli/utils.ts, escapeForSwift: five replacements, the backslash first.\<close>

definition escapeForSwift :: "string \<Rightarrow> string" where
  "escapeForSwift str =
     replaceAllChar (CHR 0x09) (bs @ ''t'')
       (replaceAllChar (CHR 0x0D) (bs @ ''r'')
         (replaceAllChar (CHR 0x0A) (bs @ ''n'')
           (replaceAllChar (CHR 0x22) (bs @ dq)
             (replaceAllChar (CHR 0x5C) (bs @ bs) str))))"

text \<open>\<^verbatim>\<open>xs.join(sep)\<close>.\<close>

fun joinWith :: "string \<Rightarrow> string list \<Rightarrow> string" where
  "joinWith sep [] = []"
| "joinWith sep [x] = x"
| "joinWith sep (x # y # ys) = x @ sep @ joinWith sep (y # ys)"

text \<open>A non-negative integer (an array index) in a template literal: its decimal digits.\<close>

definition digitChar :: "nat \<Rightarrow> char" where
  "digitChar d = ''0123456789'' ! d"

function showNat :: "nat \<Rightarrow> string" where
  "showNat n = (if n < 10 then [digitChar n] else showNat (n div 10) @ [digitChar (n mod 10)])"
  by pat_completeness auto
termination
  by (relation "measure id") auto

declare showNat.simps [simp del]

lemma showNat_digit: "n < 10 \<Longrightarrow> showNat n = [''0123456789'' ! n]"
  by (simp add: showNat.simps digitChar_def)

section \<open>Configuration types (src/types.ts)\<close>

datatype paramType = TString | TNumber | TBoolean | TDate

record ShortcutParameter =
  param_name :: string
  param_title :: string
  param_type :: paramType
  param_optional :: "bool option"
  param_description :: "string option"

text \<open>
  \<^verbatim>\<open>showWhen: boolean | string | number\<close>. The number type is a parameter of the model,
  and so is the text JavaScript gives a number in a template literal (\<open>numStr\<close> below).
  \<open>SWOther\<close> is a value of any other shape, which the declared type excludes and
  generateSwiftCondition still handles; it carries its conversion to a string.
\<close>

datatype 'n showWhenValue = SWBool bool | SWNumber 'n | SWString string | SWOther string

record 'n StateDialog =
  sd_stateKey :: string
  sd_showWhen :: "'n showWhenValue"
  sd_message :: string
  sd_requiresConfirmation :: "bool option"

fun showWhenText :: "('n \<Rightarrow> string) \<Rightarrow> 'n showWhenValue \<Rightarrow> string" where
  "showWhenText numStr (SWBool b) = (if b then ''true'' else ''false'')"
| "showWhenText numStr (SWNumber n) = numStr n"
| "showWhenText numStr (SWString s) = s"
| "showWhenText numStr (SWOther s) = s"

section \<open>Swift conditions (src/cli/utils.ts, generateSwiftCondition)\<close>

fun generateSwiftCondition :: "('n \<Rightarrow> string) \<Rightarrow> string \<Rightarrow> 'n showWhenValue \<Rightarrow> string" where
  \<open>generateSwiftCondition numStr stateKey (SWBool showWhen) =
     ''defaults.double(forKey: "'' @ stateKey @ ''") == '' @ (if showWhen then ''1'' else ''0'')\<close>
| \<open>generateSwiftCondition numStr stateKey (SWNumber showWhen) =
     ''defaults.double(forKey: "'' @ stateKey @ ''") == '' @ numStr showWhen\<close>
| \<open>generateSwiftCondition numStr stateKey (SWString showWhen) =
     ''defaults.string(forKey: "'' @ stateKey @ ''") == "'' @ showWhen @ ''"''\<close>
| \<open>generateSwiftCondition numStr stateKey (SWOther showWhen) =
     ''defaults.string(forKey: "'' @ stateKey @ ''") != nil''\<close>

section \<open>Swift code generation (src/cli/swift-codegen.ts)\<close>

subsection \<open>generateMessageInterpolation\<close>

definition localizedString :: "string \<Rightarrow> string \<Rightarrow> string" where
  \<open>localizedString localizationKey message =
     ''String(localized: "'' @ localizationKey @ ''", defaultValue: "'' @ escapeForSwift message @ ''")''\<close>

definition quotedString :: "string \<Rightarrow> string" where
  \<open>quotedString message = ''"'' @ escapeForSwift message @ ''"''\<close>

text \<open>The text appended for one variable by \<^verbatim>\<open>variables.forEach\<close>.\<close>

definition interpolateVariable :: "string \<Rightarrow> string" where
  \<open>interpolateVariable varName =
     ''        // Interpolate '' @ varName @ nl @
     ''        if let value = defaults.string(forKey: "appState_'' @ varName @ ''") {'' @ nl @
     ''            message = message.replacingOccurrences(of: "${'' @ varName @ ''}", with: value)'' @ nl @
     ''        } else if let numValue = defaults.object(forKey: "appState_'' @ varName @ ''") as? NSNumber {'' @ nl @
     ''            message = message.replacingOccurrences(of: "${'' @ varName @ ''}", with: "'' @ bs @ ''(numValue)")'' @ nl @
     ''        }'' @ nl\<close>

definition generateMessageInterpolation :: "string \<Rightarrow> string \<Rightarrow> bool \<Rightarrow> string" where
  \<open>generateMessageInterpolation message localizationKey useLocalization =
     (let variables = extractVariables message in
      if length variables = 0 then
        (if useLocalization then localizedString localizationKey message
         else quotedString message)
      else
        (if useLocalization
         then ''var message = '' @ localizedString localizationKey message @ nl
         else ''var message = '' @ quotedString message @ nl)
        @ concat (map interpolateVariable variables))\<close>

subsection \<open>generateStateDialogSwift\<close>

text \<open>The two action templates: a confirmation request, or a direct return.\<close>

definition confirmationAction :: "string \<Rightarrow> string \<Rightarrow> string" where
  \<open>confirmationAction className dialogValue =
     ''do {'' @ nl @
     ''                try await requestConfirmation('' @ nl @
     ''                    result: .result(dialog: IntentDialog(stringLiteral: '' @ dialogValue @ ''))'' @ nl @
     ''                )'' @ nl @
     ''                // User confirmed - set flag and continue'' @ nl @
     ''                userConfirmedOverride = true'' @ nl @
     ''            } catch {'' @ nl @
     ''                // User cancelled - abort execution (React Native will not be invoked)'' @ nl @
     ''                print("['' @ className @ ''] User cancelled confirmation")'' @ nl @
     ''                throw error'' @ nl @
     ''            }''\<close>

definition returnAction :: "string \<Rightarrow> string" where
  \<open>returnAction dialogValue =
     ''return .result(dialog: IntentDialog(stringLiteral: '' @ dialogValue @ ''))''\<close>

definition requiresConfirmation :: "'n StateDialog \<Rightarrow> bool" where
  "requiresConfirmation dialog = (sd_requiresConfirmation dialog \<noteq> Some False)"

definition hasInterpolation :: "'n StateDialog \<Rightarrow> bool" where
  "hasInterpolation dialog = (length (extractVariables (sd_message dialog)) > 0)"

definition messageCode :: "'n StateDialog \<Rightarrow> string \<Rightarrow> bool \<Rightarrow> string" where
  \<open>messageCode dialog localizationKey useLocalization =
     (if hasInterpolation dialog then
        ''// Interpolate message with current app state'' @ nl @
        ''            '' @ generateMessageInterpolation (sd_message dialog) localizationKey useLocalization @ nl @
        ''            ''
      else [])\<close>

definition dialogValue :: "'n StateDialog \<Rightarrow> string \<Rightarrow> bool \<Rightarrow> string" where
  \<open>dialogValue dialog localizationKey useLocalization =
     (if hasInterpolation dialog then ''message''
      else if useLocalization then localizedString localizationKey (sd_message dialog)
      else quotedString (sd_message dialog))\<close>

definition generateStateDialogSwift ::
  "('n \<Rightarrow> string) \<Rightarrow> nat \<Rightarrow> string \<Rightarrow> 'n StateDialog \<Rightarrow> string \<Rightarrow> string \<Rightarrow> bool \<Rightarrow> string \<times> bool" where
  \<open>generateStateDialogSwift numStr index className dialog condition localizationKey useLocalization =
     (let actionType = (if requiresConfirmation dialog then ''confirmation'' else ''message and return'');
          logMessage = (if requiresConfirmation dialog then ''Confirmation required''
                        else ''Showing message (no confirmation)'');
          actionCode = (if requiresConfirmation dialog
                        then confirmationAction className (dialogValue dialog localizationKey useLocalization)
                        else returnAction (dialogValue dialog localizationKey useLocalization))
      in (nl @
          ''        // State dialog #'' @ showNat (index + 1) @ '': Show '' @ actionType @ '' when '' @
             sd_stateKey dialog @ '' == '' @ showWhenText numStr (sd_showWhen dialog) @ nl @
          ''        if '' @ condition @ '' {'' @ nl @
          ''            print("['' @ className @ ''] '' @ logMessage @ '': '' @ sd_stateKey dialog @
             '' is '' @ showWhenText numStr (sd_showWhen dialog) @ ''")'' @ nl @
          ''            '' @ messageCode dialog localizationKey useLocalization @ actionCode @ nl @
          ''        }'',
          requiresConfirmation dialog))\<close>

subsection \<open>Parameter declarations\<close>

fun mapParameterTypeToSwift :: "paramType \<Rightarrow> string" where
  "mapParameterTypeToSwift TString = ''String?''"
| "mapParameterTypeToSwift TNumber = ''Double?''"
| "mapParameterTypeToSwift TBoolean = ''Bool?''"
| "mapParameterTypeToSwift TDate = ''Date?''"

text \<open>
  The callback of \<^verbatim>\<open>parameters.map((param, index) => ...)\<close>: the line of the
  \<^verbatim>\<open>@Parameter\<close> attribute, then the line of the property.
\<close>

definition parameterAttribute :: "bool \<Rightarrow> string \<Rightarrow> nat \<Rightarrow> ShortcutParameter \<Rightarrow> string" where
  \<open>parameterAttribute useLocalization shortcutIdentifier index param =
     (let titleValue =
            (if useLocalization
             then ''LocalizedStringResource("'' @ shortcutIdentifier @ ''.parameters.'' @ showNat index @
                  ''.title", defaultValue: "'' @ escapeForSwift (param_title param) @ ''")''
             else ''LocalizedStringResource("'' @ escapeForSwift (param_title param) @ ''")'');
          descriptionPart =
            (case param_description param of
               None \<Rightarrow> []
             | Some description \<Rightarrow>
                 if description = [] then []
                 else if useLocalization
                 then '', description: LocalizedStringResource("'' @ shortcutIdentifier @ ''.parameters.'' @
                      showNat index @ ''.description", defaultValue: "'' @
                      escapeForSwift description @ ''")''
                 else '', description: LocalizedStringResource("'' @
                      escapeForSwift description @ ''")'')
      in ''    @Parameter(title: '' @ titleValue @ descriptionPart @ '')'')\<close>

definition parameterDeclaration :: "bool \<Rightarrow> string \<Rightarrow> nat \<Rightarrow> ShortcutParameter \<Rightarrow> string" where
  "parameterDeclaration useLocalization shortcutIdentifier index param =
     (let swiftType = mapParameterTypeToSwift (param_type param)
      in parameterAttribute useLocalization shortcutIdentifier index param @ nl @
         ''    var '' @ param_name param @ '': '' @ swiftType)"

definition generateParameterDeclarations ::
  "ShortcutParameter list option \<Rightarrow> bool \<Rightarrow> string \<Rightarrow> string" where
  "generateParameterDeclarations parameters useLocalization shortcutIdentifier =
     (case parameters of
        None \<Rightarrow> []
      | Some ps \<Rightarrow>
          if length ps = 0 then []
          else nl @ joinWith nl (map (\<lambda>(index, param).
                      parameterDeclaration useLocalization shortcutIdentifier index param)
                    (enumerate 0 ps)) @ nl)"

subsection \<open>The state dialog checks of generateIntentStruct\<close>

text \<open>
  The callback of \<^verbatim>\<open>shortcut.stateDialogs.map((dialog, index) => ...)\<close> in
  generateIntentStruct: the state key gets the prefix under which the application
  publishes its state, and the condition is synthesized from it.
\<close>

definition stateDialogCheck ::
  "('n \<Rightarrow> string) \<Rightarrow> string \<Rightarrow> string \<Rightarrow> bool \<Rightarrow> nat \<Rightarrow> 'n StateDialog \<Rightarrow> string \<times> bool" where
  "stateDialogCheck numStr className identifier useLocalization index dialog =
     (let stateKey = ''appState_'' @ sd_stateKey dialog;
          condition = generateSwiftCondition numStr stateKey (sd_showWhen dialog);
          localizationKey = identifier @ ''.stateDialogs.'' @ showNat index @ ''.message''
      in generateStateDialogSwift numStr index className dialog condition localizationKey
           useLocalization)"

text \<open>
  The block \<^verbatim>\<open>if (shortcut.stateDialogs && shortcut.stateDialogs.length > 0)\<close>: the
  text placed in \<^verbatim>\<open>perform()\<close> before the command is published, and whether any
  dialog asks for a confirmation.
\<close>

definition stateDialogsCode ::
  "('n \<Rightarrow> string) \<Rightarrow> string \<Rightarrow> string \<Rightarrow> bool \<Rightarrow> 'n StateDialog list option \<Rightarrow> string \<times> bool" where
  "stateDialogsCode numStr className identifier useLocalization stateDialogs =
     (case stateDialogs of
        None \<Rightarrow> ([], False)
      | Some ds \<Rightarrow>
          if length ds = 0 then ([], False)
          else
            (let results = map (\<lambda>(index, dialog).
                             stateDialogCheck numStr className identifier useLocalization index dialog)
                           (enumerate 0 ds);
                 checks = joinWith nl (map fst results);
                 hasConfirmationDialogs = list_ex snd results;
                 variableDeclaration =
                   (if hasConfirmationDialogs then
                      nl @ ''        // Track whether user confirmed any state-based dialogs'' @ nl @
                      ''        var userConfirmedOverride = false'' @ nl @
                      ''        ''
                    else [])
             in (nl @ ''        // Check app state for state-based dialogs'' @ nl @
                 ''        '' @ variableDeclaration @ checks @ nl @
                 ''    '',
                 hasConfirmationDialogs)))"

subsection \<open>Confirmation requests in the generated text\<close>


section \<open>Properties of the Swift generators\<close>

lemma parameterDeclaration_optional:
  "parameterDeclaration u sid i (p\<lparr>param_optional := opt\<rparr>) = parameterDeclaration u sid i p"
  by (simp add: parameterDeclaration_def parameterAttribute_def)

lemma enumerate_map_snd:
  "enumerate n (map f xs) = map (\<lambda>(i, x). (i, f x)) (enumerate n xs)"
  by (induction xs arbitrary: n) simp_all

lemma joinWith_nth:
  "i < length xs \<Longrightarrow> \<exists>pre post. sep @ joinWith sep xs @ sep = pre @ sep @ xs ! i @ sep @ post"
proof (induction sep xs arbitrary: i rule: joinWith.induct)
  case (1 sep)
  then show ?case by simp
next
  case (2 sep x)
  then have "sep @ joinWith sep [x] @ sep = [] @ sep @ [x] ! i @ sep @ []" by simp
  then show ?case by blast
next
  case (3 sep x y ys)
  show ?case
  proof (cases i)
    case 0
    have "sep @ joinWith sep (x # y # ys) @ sep
          = [] @ sep @ (x # y # ys) ! 0 @ sep @ (joinWith sep (y # ys) @ sep)"
      by simp
    with 0 show ?thesis by blast
  next
    case (Suc j)
    with "3.prems" have "j < length (y # ys)" by simp
    from "3.IH" [OF this] obtain pre post where
      e: "sep @ joinWith sep (y # ys) @ sep = pre @ sep @ (y # ys) ! j @ sep @ post" by blast
    have "sep @ joinWith sep (x # y # ys) @ sep
          = (sep @ x) @ (sep @ joinWith sep (y # ys) @ sep)" by simp
    also have "\<dots> = (sep @ x @ pre) @ sep @ (x # y # ys) ! Suc j @ sep @ post"
      unfolding e by simp
    finally show ?thesis using Suc by blast
  qed
qed

lemma generateParameterDeclarations_optional:
  "generateParameterDeclarations (Some (map (\<lambda>p. p\<lparr>param_optional := flag p\<rparr>) ps)) u sid
     = generateParameterDeclarations (Some ps) u sid"
proof -
  have "map (\<lambda>(index, param). parameterDeclaration u sid index param)
          (enumerate 0 (map (\<lambda>p. p\<lparr>param_optional := flag p\<rparr>) ps))
        = map (\<lambda>(index, param). parameterDeclaration u sid index param) (enumerate 0 ps)"
    by (simp add: enumerate_map_snd parameterDeclaration_optional case_prod_unfold)
  then show ?thesis
    by (simp add: generateParameterDeclarations_def)
qed

text \<open>
  Claim C8. The text generateParameterDeclarations gives for a list of parameters is, for
  a non-empty list, the declarations of the parameters in order, one per parameter, each
  the \<^verbatim>\<open>@Parameter\<close> line followed by \<^verbatim>\<open>var <name>: <type>\<close>; for no list or an
  empty list it is empty. Whatever the \<open>optional\<close> flags are set to, the text is the same,
  and for every parameter it contains the declaration of that parameter with the type
  String?, Double?, Bool? or Date? according to the declared type tag, always an optional.
\<close>

theorem parameter_declarations_always_optional:
  "generateParameterDeclarations (Some (map (\<lambda>p. p\<lparr>param_optional := flag p\<rparr>) ps)) u sid
     = generateParameterDeclarations (Some ps) u sid
   \<and> generateParameterDeclarations None u sid = []
   \<and> generateParameterDeclarations (Some ps) u sid =
       (if ps = [] then []
        else nl @ joinWith nl (map (\<lambda>(i, p).
                    parameterAttribute u sid i p @ nl @
                    ''    var '' @ param_name p @ '': '' @ mapParameterTypeToSwift (param_type p))
                  (enumerate 0 ps)) @ nl)
   \<and> (\<forall>k < length ps. \<exists>pre post.
         generateParameterDeclarations (Some (map (\<lambda>p. p\<lparr>param_optional := flag p\<rparr>) ps)) u sid =
           pre @ nl @ parameterAttribute u sid k (ps ! k) @ nl @
           ''    var '' @ param_name (ps ! k) @ '': '' @
           (case param_type (ps ! k) of
              TString \<Rightarrow> ''String?'' | TNumber \<Rightarrow> ''Double?''
            | TBoolean \<Rightarrow> ''Bool?'' | TDate \<Rightarrow> ''Date?'') @ nl @ post)
   \<and> parameterAttribute u sid i (p\<lparr>param_optional := opt\<rparr>) = parameterAttribute u sid i p
   \<and> parameterDeclaration u sid i (p\<lparr>param_optional := opt\<rparr>)
        = parameterAttribute u sid i p @ nl @
          ''    var '' @ param_name p @ '': '' @ mapParameterTypeToSwift (param_type p)
   \<and> mapParameterTypeToSwift (param_type p) \<in> {''String?'', ''Double?'', ''Bool?'', ''Date?''}
   \<and> last (mapParameterTypeToSwift (param_type p)) = CHR ''?''
   \<and> map mapParameterTypeToSwift [TString, TNumber, TBoolean, TDate]
        = [''String?'', ''Double?'', ''Bool?'', ''Date?'']"
proof (intro conjI)
  show "generateParameterDeclarations (Some (map (\<lambda>p. p\<lparr>param_optional := flag p\<rparr>) ps)) u sid
     = generateParameterDeclarations (Some ps) u sid"
    by (rule generateParameterDeclarations_optional)
next
  show "generateParameterDeclarations None u sid = []"
    by (simp add: generateParameterDeclarations_def)
next
  show "generateParameterDeclarations (Some ps) u sid =
       (if ps = [] then []
        else nl @ joinWith nl (map (\<lambda>(i, p).
                    parameterAttribute u sid i p @ nl @
                    ''    var '' @ param_name p @ '': '' @ mapParameterTypeToSwift (param_type p))
                  (enumerate 0 ps)) @ nl)"
    unfolding generateParameterDeclarations_def parameterDeclaration_def Let_def by simp
next
  note same = generateParameterDeclarations_optional [of flag ps u sid]
  have ty: "mapParameterTypeToSwift t =
      (case t of TString \<Rightarrow> ''String?'' | TNumber \<Rightarrow> ''Double?''
       | TBoolean \<Rightarrow> ''Bool?'' | TDate \<Rightarrow> ''Date?'')" for t
    by (cases t) simp_all
  show "\<forall>k < length ps. \<exists>pre post.
         generateParameterDeclarations (Some (map (\<lambda>p. p\<lparr>param_optional := flag p\<rparr>) ps)) u sid =
           pre @ nl @ parameterAttribute u sid k (ps ! k) @ nl @
           ''    var '' @ param_name (ps ! k) @ '': '' @
           (case param_type (ps ! k) of
              TString \<Rightarrow> ''String?'' | TNumber \<Rightarrow> ''Double?''
            | TBoolean \<Rightarrow> ''Bool?'' | TDate \<Rightarrow> ''Date?'') @ nl @ post"
  proof (intro allI impI)
    fix k
    assume k: "k < length ps"
    let ?ds = "map (\<lambda>(index, param). parameterDeclaration u sid index param) (enumerate 0 ps)"
    from k have len: "k < length ?ds" by simp
    from k have nth: "?ds ! k = parameterDeclaration u sid k (ps ! k)"
      by (simp add: nth_enumerate_eq)
    from k have g: "generateParameterDeclarations (Some ps) u sid = nl @ joinWith nl ?ds @ nl"
      by (auto simp: generateParameterDeclarations_def)
    from joinWith_nth [OF len, of nl] obtain pre post where
      "nl @ joinWith nl ?ds @ nl = pre @ nl @ ?ds ! k @ nl @ post" by blast
    with g nth have "generateParameterDeclarations (Some ps) u sid =
           pre @ nl @ parameterAttribute u sid k (ps ! k) @ nl @
           ''    var '' @ param_name (ps ! k) @ '': '' @
           mapParameterTypeToSwift (param_type (ps ! k)) @ nl @ post"
      by (simp add: parameterDeclaration_def)
    then show "\<exists>pre post.
         generateParameterDeclarations (Some (map (\<lambda>p. p\<lparr>param_optional := flag p\<rparr>) ps)) u sid =
           pre @ nl @ parameterAttribute u sid k (ps ! k) @ nl @
           ''    var '' @ param_name (ps ! k) @ '': '' @
           (case param_type (ps ! k) of
              TString \<Rightarrow> ''String?'' | TNumber \<Rightarrow> ''Double?''
            | TBoolean \<Rightarrow> ''Bool?'' | TDate \<Rightarrow> ''Date?'') @ nl @ post"
      unfolding same ty by blast
  qed
next
  show "parameterAttribute u sid i (p\<lparr>param_optional := opt\<rparr>) = parameterAttribute u sid i p"
    by (simp add: parameterAttribute_def)
next
  show "parameterDeclaration u sid i (p\<lparr>param_optional := opt\<rparr>)
        = parameterAttribute u sid i p @ nl @
          ''    var '' @ param_name p @ '': '' @ mapParameterTypeToSwift (param_type p)"
    by (simp add: parameterDeclaration_def parameterAttribute_def)
next
  show "mapParameterTypeToSwift (param_type p) \<in> {''String?'', ''Double?'', ''Bool?'', ''Date?''}"
    by (cases "param_type p") simp_all
next
  show "last (mapParameterTypeToSwift (param_type p)) = CHR ''?''"
    by (cases "param_type p") simp_all
next
  show "map mapParameterTypeToSwift [TString, TNumber, TBoolean, TDate]
        = [''String?'', ''Double?'', ''Bool?'', ''Date?'']"
    by simp
qed

theorem parameter_declarations_always_optional_witness:
  \<open>generateParameterDeclarations
     (Some [\<lparr>param_name = ''taskName'', param_title = ''Task Name'', param_type = TString,
             param_optional = Some False, param_description = Some ''The task''\<rparr>,
            \<lparr>param_name = ''due'', param_title = ''Due'', param_type = TDate,
             param_optional = Some False, param_description = None\<rparr>])
     True ''addTask'' =
     nl @ ''    @Parameter(title: LocalizedStringResource("addTask.parameters.0.title", defaultValue: "Task Name"), description: LocalizedStringResource("addTask.parameters.0.description", defaultValue: "The task"))'' @ nl @
     ''    var taskName: String?'' @ nl @
     ''    @Parameter(title: LocalizedStringResource("addTask.parameters.1.title", defaultValue: "Due"))'' @ nl @
     ''    var due: Date?'' @ nl
   \<and> (\<exists>pre post.
        generateParameterDeclarations
          (Some [\<lparr>param_name = ''taskName'', param_title = ''Task Name'', param_type = TString,
                  param_optional = Some False, param_description = Some ''The task''\<rparr>,
                 \<lparr>param_name = ''due'', param_title = ''Due'', param_type = TDate,
                  param_optional = Some False, param_description = None\<rparr>])
          True ''addTask'' =
        pre @ nl @ ''    @Parameter(title: LocalizedStringResource("addTask.parameters.1.title", defaultValue: "Due"))'' @ nl @
        ''    var due: Date?'' @ nl @ post)\<close>
proof -
  let ?p1 = "\<lparr>param_name = ''taskName'', param_title = ''Task Name'', param_type = TString,
             param_optional = None, param_description = Some ''The task''\<rparr>"
  let ?p2 = "\<lparr>param_name = ''due'', param_title = ''Due'', param_type = TDate,
             param_optional = Some True, param_description = None\<rparr>"
  note t = parameter_declarations_always_optional
    [where flag = "\<lambda>p. Some False" and ps = "[?p1, ?p2]" and u = True and sid = "''addTask''"]
  have e: "escapeForSwift ''Task Name'' = ''Task Name''" "escapeForSwift ''The task'' = ''The task''"
    "escapeForSwift ''Due'' = ''Due''"
    by (simp_all add: escapeForSwift_def replaceAllChar_def)
  have n: "showNat 0 = ''0''" "showNat 1 = ''1''" "showNat (Suc 0) = ''1''"
    by (simp_all add: showNat_digit)
  from t have c1: "generateParameterDeclarations
      (Some (map (\<lambda>p. p\<lparr>param_optional := Some False\<rparr>) [?p1, ?p2])) True ''addTask''
      = generateParameterDeclarations (Some [?p1, ?p2]) True ''addTask''"
    by (rule conjunct1)
  from t have c3: "generateParameterDeclarations (Some [?p1, ?p2]) True ''addTask'' =
       (if [?p1, ?p2] = [] then []
        else nl @ joinWith nl (map (\<lambda>(i, p).
                    parameterAttribute True ''addTask'' i p @ nl @
                    ''    var '' @ param_name p @ '': '' @ mapParameterTypeToSwift (param_type p))
                  (enumerate 0 [?p1, ?p2])) @ nl)"
    by blast
  from t have c4: "\<forall>k < length [?p1, ?p2]. \<exists>pre post.
         generateParameterDeclarations (Some (map (\<lambda>p. p\<lparr>param_optional := Some False\<rparr>) [?p1, ?p2])) True ''addTask'' =
           pre @ nl @ parameterAttribute True ''addTask'' k ([?p1, ?p2] ! k) @ nl @
           ''    var '' @ param_name ([?p1, ?p2] ! k) @ '': '' @
           (case param_type ([?p1, ?p2] ! k) of
              TString \<Rightarrow> ''String?'' | TNumber \<Rightarrow> ''Double?''
            | TBoolean \<Rightarrow> ''Bool?'' | TDate \<Rightarrow> ''Date?'') @ nl @ post"
    by blast
  have a: "parameterAttribute True ''addTask'' 0 ?p1 =
      ''    @Parameter(title: LocalizedStringResource('' @ dq @ ''addTask.parameters.0.title'' @ dq @
      '', defaultValue: '' @ dq @ ''Task Name'' @ dq @ ''), description: LocalizedStringResource('' @ dq @
      ''addTask.parameters.0.description'' @ dq @ '', defaultValue: '' @ dq @ ''The task'' @ dq @ ''))''"
    by (simp add: parameterAttribute_def e n dq_def)
  have b: "parameterAttribute True ''addTask'' (Suc 0) ?p2 =
      ''    @Parameter(title: LocalizedStringResource('' @ dq @ ''addTask.parameters.1.title'' @ dq @
      '', defaultValue: '' @ dq @ ''Due'' @ dq @ ''))''"
    by (simp add: parameterAttribute_def e n dq_def)
  have first: "generateParameterDeclarations
      (Some (map (\<lambda>p. p\<lparr>param_optional := Some False\<rparr>) [?p1, ?p2])) True ''addTask'' =
     nl @ ''    @Parameter(title: LocalizedStringResource('' @ dq @ ''addTask.parameters.0.title'' @ dq @
      '', defaultValue: '' @ dq @ ''Task Name'' @ dq @ ''), description: LocalizedStringResource('' @ dq @
      ''addTask.parameters.0.description'' @ dq @ '', defaultValue: '' @ dq @ ''The task'' @ dq @ ''))'' @ nl @
     ''    var taskName: String?'' @ nl @
     ''    @Parameter(title: LocalizedStringResource('' @ dq @ ''addTask.parameters.1.title'' @ dq @
      '', defaultValue: '' @ dq @ ''Due'' @ dq @ ''))'' @ nl @
     ''    var due: Date?'' @ nl"
    unfolding c1 c3 by (simp add: a b)
  from c4 [rule_format, of "Suc 0"] have second: "\<exists>pre post.
    generateParameterDeclarations (Some (map (\<lambda>p. p\<lparr>param_optional := Some False\<rparr>) [?p1, ?p2])) True ''addTask'' =
       pre @ nl @ (''    @Parameter(title: LocalizedStringResource('' @ dq @ ''addTask.parameters.1.title'' @ dq @
      '', defaultValue: '' @ dq @ ''Due'' @ dq @ ''))'') @ nl @ ''    var due: Date?'' @ nl @ post"
    by (simp add: b)
  from first second show ?thesis
    by (simp add: dq_def)
qed

























section \<open>The shared store (ios/IosIntents.swift)\<close>

text \<open>
  The shared UserDefaults of the App Group: keys with property-list values. A number
  (NSNumber, which also holds booleans) is of the model's number type; \<open>POther\<close> is any
  other property-list value. The store is an association list, so that
  \<^verbatim>\<open>dictionaryRepresentation().keys\<close> can be enumerated.
\<close>

datatype 'n pvalue = PString string | PNumber 'n | POther

type_synonym 'n defaults = "(string \<times> 'n pvalue) list"

datatype IosIntentsError = AppGroupAccessFailed | NoSharedInstance | NoPendingCommand

definition setObject :: "string \<Rightarrow> 'n pvalue \<Rightarrow> 'n defaults \<Rightarrow> 'n defaults" where
  "setObject key v defaults = AList.update key v defaults"

definition removeObject :: "string \<Rightarrow> 'n defaults \<Rightarrow> 'n defaults" where
  "removeObject key defaults = AList.delete key defaults"

definition object_forKey :: "'n defaults \<Rightarrow> string \<Rightarrow> 'n pvalue option" where
  "object_forKey defaults key = map_of defaults key"

text \<open>
  \<^verbatim>\<open>string(forKey:)\<close> and \<^verbatim>\<open>double(forKey:)\<close> are the platform's: how a stored value
  is read as a string (\<open>asString\<close>, nil when it cannot be) and how a stored or missing
  value is read as a double (\<open>asDouble\<close>) are parameters of the model.
  \<^verbatim>\<open>object(forKey:) as? NSNumber\<close> gives a stored number.
\<close>

definition string_forKey ::
  "('n pvalue \<Rightarrow> string option) \<Rightarrow> 'n defaults \<Rightarrow> string \<Rightarrow> string option" where
  "string_forKey asString defaults key =
     (case map_of defaults key of None \<Rightarrow> None | Some v \<Rightarrow> asString v)"

definition double_forKey ::
  "('n pvalue option \<Rightarrow> 'n) \<Rightarrow> 'n defaults \<Rightarrow> string \<Rightarrow> 'n" where
  "double_forKey asDouble defaults key = asDouble (map_of defaults key)"

definition number_forKey :: "'n defaults \<Rightarrow> string \<Rightarrow> 'n option" where
  "number_forKey defaults key =
     (case map_of defaults key of Some (PNumber n) \<Rightarrow> Some n | _ \<Rightarrow> None)"

text \<open>
  setSharedString and setSharedNumber: \<open>sharedDefaults\<close> is nil when the App Group cannot
  be opened, and then the call throws.
\<close>

definition setSharedString ::
  "'n defaults option \<Rightarrow> string \<Rightarrow> string option \<Rightarrow> IosIntentsError + 'n defaults" where
  "setSharedString sharedDefaults key value =
     (case sharedDefaults of
        None \<Rightarrow> Inl AppGroupAccessFailed
      | Some defaults \<Rightarrow>
          (case value of
             Some v \<Rightarrow> Inr (setObject key (PString v) defaults)
           | None \<Rightarrow> Inr (removeObject key defaults)))"

definition setSharedNumber ::
  "'n defaults option \<Rightarrow> string \<Rightarrow> 'n option \<Rightarrow> IosIntentsError + 'n defaults" where
  "setSharedNumber sharedDefaults key value =
     (case sharedDefaults of
        None \<Rightarrow> Inl AppGroupAccessFailed
      | Some defaults \<Rightarrow>
          (case value of
             Some v \<Rightarrow> Inr (setObject key (PNumber v) defaults)
           | None \<Rightarrow> Inr (removeObject key defaults)))"

section \<open>Application state (src/SiriShortcutsManager.ts, updateAppState)\<close>

text \<open>
  \<^verbatim>\<open>AppStateValue\<close>. \<open>AVObject\<close> is an object or array; \<open>stringify\<close> below is
  \<^verbatim>\<open>JSON.stringify\<close> on it, \<open>None\<close> when it throws.
\<close>

datatype ('n, 'o) appStateValue =
  AVBool bool | AVNumber 'n | AVString string | AVNull | AVUndefined | AVObject 'o

text \<open>\<^verbatim>\<open>Set.add\<close> on a set that keeps insertion order.\<close>

definition setAdd :: "'a list \<Rightarrow> 'a \<Rightarrow> 'a list" where
  "setAdd s x = (if x \<in> set s then s else s @ [x])"

text \<open>
  The body of \<^verbatim>\<open>Object.entries(state).forEach\<close>, on the tracked keys and the shared
  store. A call of the native module that throws leaves the loop (the outer
  \<^verbatim>\<open>try\<close> catches it), except in the branch of complex values, whose own
  \<^verbatim>\<open>try\<close> catches it and lets the loop go on.
\<close>

fun updateAppStateEntries ::
  "('o \<Rightarrow> string option) \<Rightarrow> (string \<times> ('n::{zero,one}, 'o) appStateValue) list \<Rightarrow>
   string list \<times> 'n defaults option \<Rightarrow> string list \<times> 'n defaults option" where
  "updateAppStateEntries stringify [] (tracked, sharedDefaults) = (tracked, sharedDefaults)"
| "updateAppStateEntries stringify ((key, value) # rest) (tracked, sharedDefaults) =
     (let stateKey = ''appState_'' @ key;
          tracked' = setAdd tracked key
      in case value of
           AVBool b \<Rightarrow>
             (case setSharedNumber sharedDefaults stateKey (Some (if b then 1 else 0)) of
                Inl e \<Rightarrow> (tracked', sharedDefaults)
              | Inr d \<Rightarrow> updateAppStateEntries stringify rest (tracked', Some d))
         | AVNumber n \<Rightarrow>
             (case setSharedNumber sharedDefaults stateKey (Some n) of
                Inl e \<Rightarrow> (tracked', sharedDefaults)
              | Inr d \<Rightarrow> updateAppStateEntries stringify rest (tracked', Some d))
         | AVString s \<Rightarrow>
             (case setSharedString sharedDefaults stateKey (Some s) of
                Inl e \<Rightarrow> (tracked', sharedDefaults)
              | Inr d \<Rightarrow> updateAppStateEntries stringify rest (tracked', Some d))
         | AVNull \<Rightarrow>
             (case setSharedString sharedDefaults stateKey None of
                Inl e \<Rightarrow> (tracked', sharedDefaults)
              | Inr d \<Rightarrow> updateAppStateEntries stringify rest (tracked', Some d))
         | AVUndefined \<Rightarrow>
             (case setSharedString sharedDefaults stateKey None of
                Inl e \<Rightarrow> (tracked', sharedDefaults)
              | Inr d \<Rightarrow> updateAppStateEntries stringify rest (tracked', Some d))
         | AVObject obj \<Rightarrow>
             (case stringify obj of
                None \<Rightarrow> updateAppStateEntries stringify rest (tracked', sharedDefaults)
              | Some text \<Rightarrow>
                  (case setSharedString sharedDefaults stateKey (Some text) of
                     Inl e \<Rightarrow> updateAppStateEntries stringify rest (tracked', sharedDefaults)
                   | Inr d \<Rightarrow> updateAppStateEntries stringify rest (tracked', Some d))))"

text \<open>
  updateAppState: \<open>moduleAvailable\<close> is whether \<^verbatim>\<open>getNativeModule()\<close> gives the module
  (on iOS); \<open>state\<close> is \<^verbatim>\<open>Object.entries(state)\<close>.
\<close>

definition updateAppState ::
  "bool \<Rightarrow> ('o \<Rightarrow> string option) \<Rightarrow> (string \<times> ('n::{zero,one}, 'o) appStateValue) list \<Rightarrow>
   string list \<times> 'n defaults option \<Rightarrow> string list \<times> 'n defaults option" where
  "updateAppState moduleAvailable stringify state st =
     (if \<not> moduleAvailable then st else updateAppStateEntries stringify state st)"

section \<open>Properties of updateAppState\<close>

lemma updateAppStateEntries_accessible:
  "\<exists>tracked' d'. updateAppStateEntries stringify state (tracked, Some d) = (tracked', Some d')"
proof (induction state arbitrary: tracked d)
  case Nil
  show ?case by simp
next
  case (Cons e state)
  obtain key v where e: "e = (key, v)" by (cases e)
  show ?case unfolding e
    by (cases v) (simp_all add: Let_def setSharedNumber_def setSharedString_def Cons.IH
        split: option.splits)
qed

lemma updateAppStateEntries_other_key:
  assumes "k \<notin> fst ` set state"
    and "updateAppStateEntries stringify state (tracked, Some d) = (tracked', Some d')"
  shows "map_of d' (''appState_'' @ k) = map_of d (''appState_'' @ k)"
  using assms
proof (induction state arbitrary: tracked d)
  case Nil
  then show ?case by simp
next
  case (Cons e state)
  obtain key v where e: "e = (key, v)" by (cases e)
  from Cons.prems(1) e have kk: "key \<noteq> k" and rest: "k \<notin> fst ` set state" by auto
  from Cons.prems(2) Cons.IH [OF rest] kk show ?case unfolding e
    by (cases v)
       (auto simp: Let_def setSharedNumber_def setSharedString_def setObject_def removeObject_def
          update_conv' delete_conv' split: option.splits)
qed

lemma updateAppStateEntries_boolean:
  assumes "distinct (map fst state)" and "(k, AVBool b) \<in> set state"
    and "updateAppStateEntries stringify state (tracked, Some d) = (tracked', sd')"
  shows "\<exists>d'. sd' = Some d' \<and>
           map_of d' (''appState_'' @ k) = Some (PNumber (if b then 1 else 0))"
  using assms
proof (induction state arbitrary: tracked d)
  case Nil
  then show ?case by simp
next
  case (Cons e state)
  obtain key v where e: "e = (key, v)" by (cases e)
  from Cons.prems(1) e have dist: "distinct (map fst state)" and fresh: "key \<notin> fst ` set state"
    by auto
  show ?case
  proof (cases "(k, AVBool b) \<in> set state")
    case True
    from Cons.prems(3) Cons.IH [OF dist True] show ?thesis unfolding e
      by (cases v)
         (auto simp: Let_def setSharedNumber_def setSharedString_def split: option.splits)
  next
    case False
    with Cons.prems(2) e have kv: "key = k" "v = AVBool b" by auto
    let ?d1 = "setObject (''appState_'' @ k) (PNumber (if b then 1 else 0)) d"
    from Cons.prems(3) kv e
    have run: "updateAppStateEntries stringify state (setAdd tracked k, Some ?d1) = (tracked', sd')"
      by (simp add: Let_def setSharedNumber_def)
    from updateAppStateEntries_accessible [of stringify state "setAdd tracked k" ?d1] run
    obtain d' where sd': "sd' = Some d'" by auto
    from fresh kv have "k \<notin> fst ` set state" by simp
    from updateAppStateEntries_other_key [OF this run [unfolded sd']]
    have "map_of d' (''appState_'' @ k) = Some (PNumber (if b then 1 else 0))"
      by (simp add: setObject_def update_conv')
    with sd' show ?thesis by simp
  qed
qed

text \<open>
  Claim C7. Both sides encode a boolean of the application state as a number. When the
  native module is available and the shared store can be opened, updateAppState leaves
  under \<^verbatim>\<open>appState_<key>\<close> the number 1 for true and 0 for false (the entries of the
  state object have distinct keys). The condition synthesized for a boolean showWhen
  reads the state key as a double and compares it with 1 or 0; for a number it compares
  the double with the number, for a string it compares the string read with the string,
  and for any other shape it checks that the key exists. The intent generator synthesizes
  the condition on the key with the same \<^verbatim>\<open>appState_\<close> prefix.
\<close>

theorem boolean_state_encoding:
  "(distinct (map fst state) \<and> (k, AVBool b) \<in> set state \<and>
      updateAppState True stringify state (tracked, Some d) = (tracked', sd')
     \<longrightarrow> (\<exists>d'. sd' = Some d' \<and>
            object_forKey d' (''appState_'' @ k) = Some (PNumber (if b then 1 else 0))))
   \<and> generateSwiftCondition numStr key (SWBool b) =
        ''defaults.double(forKey: '' @ dq @ key @ dq @ '') == '' @ (if b then ''1'' else ''0'')
   \<and> generateSwiftCondition numStr key (SWNumber n) =
        ''defaults.double(forKey: '' @ dq @ key @ dq @ '') == '' @ numStr n
   \<and> generateSwiftCondition numStr key (SWString s) =
        ''defaults.string(forKey: '' @ dq @ key @ dq @ '') == '' @ dq @ s @ dq
   \<and> generateSwiftCondition numStr key (SWOther x) =
        ''defaults.string(forKey: '' @ dq @ key @ dq @ '') != nil''
   \<and> stateDialogCheck numStr className ident useLoc index dialog =
        generateStateDialogSwift numStr index className dialog
          (generateSwiftCondition numStr (''appState_'' @ sd_stateKey dialog) (sd_showWhen dialog))
          (ident @ ''.stateDialogs.'' @ showNat index @ ''.message'') useLoc"
proof (intro conjI impI)
  assume a: "distinct (map fst state) \<and> (k, AVBool b) \<in> set state \<and>
      updateAppState True stringify state (tracked, Some d) = (tracked', sd')"
  then have "updateAppStateEntries stringify state (tracked, Some d) = (tracked', sd')"
    by (simp add: updateAppState_def)
  with a show "\<exists>d'. sd' = Some d' \<and>
      object_forKey d' (''appState_'' @ k) = Some (PNumber (if b then 1 else 0))"
    unfolding object_forKey_def by (blast intro: updateAppStateEntries_boolean)
next
  show "generateSwiftCondition numStr key (SWBool b) =
        ''defaults.double(forKey: '' @ dq @ key @ dq @ '') == '' @ (if b then ''1'' else ''0'')"
    by (simp add: dq_def)
next
  show "generateSwiftCondition numStr key (SWNumber n) =
        ''defaults.double(forKey: '' @ dq @ key @ dq @ '') == '' @ numStr n"
    by (simp add: dq_def)
next
  show "generateSwiftCondition numStr key (SWString s) =
        ''defaults.string(forKey: '' @ dq @ key @ dq @ '') == '' @ dq @ s @ dq"
    by (simp add: dq_def)
next
  show "generateSwiftCondition numStr key (SWOther x) =
        ''defaults.string(forKey: '' @ dq @ key @ dq @ '') != nil''"
    by (simp add: dq_def)
next
  show "stateDialogCheck numStr className ident useLoc index dialog =
        generateStateDialogSwift numStr index className dialog
          (generateSwiftCondition numStr (''appState_'' @ sd_stateKey dialog) (sd_showWhen dialog))
          (ident @ ''.stateDialogs.'' @ showNat index @ ''.message'') useLoc"
    by (simp add: stateDialogCheck_def)
qed

theorem boolean_state_encoding_witness:
  "\<exists>d'. snd (updateAppState True (\<lambda>u::unit. None)
             [(''timerRunning'', AVBool True), (''taskName'', AVString ''Work''),
              (''paused'', AVBool False)]
             ([], Some [(''appState_timerRunning'', PString ''stale'')]))
          = Some (d' :: int defaults)
        \<and> object_forKey d' ''appState_timerRunning'' = Some (PNumber 1)"
proof -
  let ?state = "[(''timerRunning'', AVBool True), (''taskName'', AVString ''Work''),
                 (''paused'', AVBool False)] :: (string \<times> (int, unit) appStateValue) list"
  let ?st = "([], Some [(''appState_timerRunning'', PString ''stale'')])
               :: string list \<times> int defaults option"
  let ?r = "updateAppState True (\<lambda>u::unit. None) ?state ?st"
  have h: "distinct (map fst ?state) \<and> (''timerRunning'', AVBool True) \<in> set ?state \<and>
      updateAppState True (\<lambda>u::unit. None) ?state ?st = (fst ?r, snd ?r)"
    by simp
  have "(distinct (map fst ?state) \<and> (''timerRunning'', AVBool True) \<in> set ?state \<and>
      updateAppState True (\<lambda>u::unit. None) ?state ?st = (fst ?r, snd ?r))
     \<longrightarrow> (\<exists>d'. snd ?r = Some d' \<and>
            object_forKey d' (''appState_'' @ ''timerRunning'')
              = Some (PNumber (if True then 1 else 0)))"
    by (rule conjunct1 [OF boolean_state_encoding [of ?state "''timerRunning''" True "\<lambda>u. None" "[]"
      "[(''appState_timerRunning'', PString ''stale'')]" "fst ?r" "snd ?r"]])
  with h have "\<exists>d'. snd ?r = Some d' \<and>
            object_forKey d' (''appState_'' @ ''timerRunning'')
              = Some (PNumber (if True then 1 else 0))"
    by (rule rev_mp)
  then show ?thesis by simp
qed

section \<open>Shortcut definitions and the type surface (src/types.ts, src/cli/utils.ts)\<close>

record 'n ShortcutDefinition =
  sc_identifier :: string
  sc_title :: string
  sc_phrases :: "string list"
  sc_systemImageName :: "string option"
  sc_description :: "string option"
  sc_stateDialogs :: "'n StateDialog list option"
  sc_parameters :: "ShortcutParameter list option"

record 'n ShortcutsConfig =
  cfg_shortcuts :: "'n ShortcutDefinition list"
  cfg_localization :: "bool option"
  cfg_appGroupId :: "string option"

fun mapParameterTypeToTS :: "paramType \<Rightarrow> string" where
  "mapParameterTypeToTS TString = ''string''"
| "mapParameterTypeToTS TNumber = ''number''"
| "mapParameterTypeToTS TBoolean = ''boolean''"
| "mapParameterTypeToTS TDate = ''Date''"

definition paramField :: "ShortcutParameter \<Rightarrow> string" where
  "paramField param =
     (let tsType = mapParameterTypeToTS (param_type param);
          optional = (if param_optional param \<noteq> Some False then ''?'' else [])
      in ''    '' @ param_name param @ optional @ '': '' @ tsType @ '';'')"

text \<open>
  \<^verbatim>\<open>shortcut.parameters && shortcut.parameters.length > 0\<close>, and the callback of
  \<^verbatim>\<open>config.shortcuts.map\<close> in generateTypeScriptTypes: one variant of the union.
\<close>

definition hasParameters :: "'n ShortcutDefinition \<Rightarrow> bool" where
  "hasParameters shortcut =
     (case sc_parameters shortcut of None \<Rightarrow> False | Some ps \<Rightarrow> length ps > 0)"

definition shortcutType :: "'n ShortcutDefinition \<Rightarrow> string" where
  "shortcutType shortcut =
     (if hasParameters shortcut then
        ''  | {'' @ nl @
        ''      identifier: '' @ sq @ sc_identifier shortcut @ sq @ '';'' @ nl @
        ''      nonce: string;'' @ nl @
        ''      parameters: {'' @ nl @
        joinWith nl (map paramField (case sc_parameters shortcut of None \<Rightarrow> [] | Some ps \<Rightarrow> ps)) @ nl @
        ''      };'' @ nl @
        ''      userConfirmed?: boolean;'' @ nl @
        ''    }''
      else
        ''  | {'' @ nl @
        ''      identifier: '' @ sq @ sc_identifier shortcut @ sq @ '';'' @ nl @
        ''      nonce: string;'' @ nl @
        ''      parameters?: never;'' @ nl @
        ''      userConfirmed?: boolean;'' @ nl @
        ''    }'')"

definition typesFileImports :: string where
  "typesFileImports =
     ''// AUTO-GENERATED - DO NOT EDIT'' @ nl @
     ''// Generated from shortcuts.config.ts'' @ nl @
     ''// Run '' @ sq @ ''npx react-native-ios-intents generate'' @ sq @ '' to regenerate'' @ nl @
     nl @
     ''// This file augments react-native-ios-intents types with your shortcuts'' @ nl @
     ''// No manual import needed - types are automatically applied!'' @ nl @
     nl"

definition typeDefinitionHead :: string where
  "typeDefinitionHead =
     ''/**'' @ nl @
     '' * Type-safe shortcut invocation'' @ nl @
     '' * Provides autocomplete and type checking for shortcut identifiers and parameters'' @ nl @
     '' *'' @ nl @
     '' * Usage in your code:'' @ nl @
     '' * import type { ShortcutInvocation } from '' @ sq @ ''./shortcuts.generated'' @ sq @ '';'' @ nl @
     '' *'' @ nl @
     '' * Or use the type assertion:'' @ nl @
     '' * const shortcut = data as ShortcutInvocation;'' @ nl @
     '' */'' @ nl @
     ''export type ShortcutInvocation ='' @ nl"

definition typeDefinitionTail :: string where
  "typeDefinitionTail =
     '';'' @ nl @
     nl @
     ''/**'' @ nl @
     '' * Callback function for responding to Siri'' @ nl @
     '' */'' @ nl @
     ''export type RespondCallback = (response?: { message?: string }) => void;'' @ nl @
     nl @
     ''/**'' @ nl @
     '' * Listener function for shortcut events'' @ nl @
     '' * Receives typed shortcut data with autocomplete'' @ nl @
     '' */'' @ nl @
     ''export type ShortcutListener = ('' @ nl @
     ''  shortcut: ShortcutInvocation,'' @ nl @
     ''  respond: RespondCallback'' @ nl @
     '') => void | Promise<void>;'' @ nl"

definition generateTypeScriptTypes :: "'n ShortcutsConfig \<Rightarrow> string" where
  "generateTypeScriptTypes config =
     typesFileImports @ typeDefinitionHead @
     joinWith nl (map shortcutType (cfg_shortcuts config)) @ typeDefinitionTail"

section \<open>Delivery to listeners (src/SiriShortcutsManager.ts)\<close>

text \<open>
  What the native module hands to the callback, and what a listener receives. The
  parameters are optional in both declarations; \<open>None\<close> is \<^verbatim>\<open>undefined\<close>. Parameter values
  are of any type \<open>'v\<close>.
\<close>

record 'v NativeShortcutData =
  nsd_identifier :: string
  nsd_nonce :: string
  nsd_parameters :: "(string \<times> 'v) list option"
  nsd_userConfirmed :: "bool option"

record 'v ShortcutInvocation =
  inv_identifier :: string
  inv_nonce :: string
  inv_parameters :: "(string \<times> 'v) list option"
  inv_userConfirmed :: "bool option"

text \<open>
  handleShortcutInvocation calls every registered listener, in the order of registration,
  with the same invocation; what a listener throws is caught and the loop goes on. The
  result is the list of calls made.
\<close>

definition handleShortcutInvocation ::
  "'l list \<Rightarrow> 'v ShortcutInvocation \<Rightarrow> ('l \<times> 'v ShortcutInvocation) list" where
  "handleShortcutInvocation listeners shortcut = map (\<lambda>listener. (listener, shortcut)) listeners"

text \<open>
  The callback registered by ensureNativeCallback. An object is truthy, so
  \<^verbatim>\<open>nativeData.parameters || {}\<close> replaces only a missing value.
\<close>

definition nativeCallback ::
  "'l list \<Rightarrow> 'v NativeShortcutData \<Rightarrow> ('l \<times> 'v ShortcutInvocation) list" where
  "nativeCallback listeners nativeData =
     handleShortcutInvocation listeners
       \<lparr>inv_identifier = nsd_identifier nativeData,
        inv_nonce = nsd_nonce nativeData,
        inv_parameters = Some (case nsd_parameters nativeData of None \<Rightarrow> [] | Some ps \<Rightarrow> ps),
        inv_userConfirmed = nsd_userConfirmed nativeData\<rparr>"

section \<open>Properties of the delivery and of the type surface\<close>

text \<open>
  Claim C10. Every invocation handed to a registered listener has a parameters object:
  the one the native layer supplied, or the empty object when it supplied none; every
  listener is called. For a shortcut that declares no parameters the generated type
  variant nevertheless says \<^verbatim>\<open>parameters?: never\<close>.
\<close>

theorem delivered_parameters_always_object:
  "(\<forall>call \<in> set (nativeCallback listeners nativeData).
       inv_parameters (snd call) \<noteq> None
     \<and> inv_parameters (snd call)
         = Some (case nsd_parameters nativeData of None \<Rightarrow> [] | Some ps \<Rightarrow> ps)
     \<and> inv_identifier (snd call) = nsd_identifier nativeData
     \<and> inv_nonce (snd call) = nsd_nonce nativeData)
   \<and> (nsd_parameters nativeData = None \<longrightarrow>
        (\<forall>call \<in> set (nativeCallback listeners nativeData). inv_parameters (snd call) = Some []))
   \<and> map fst (nativeCallback listeners nativeData) = listeners
   \<and> (sc_parameters shortcut = None \<or> sc_parameters shortcut = Some [] \<longrightarrow>
        shortcutType shortcut =
          ''  | {'' @ nl @
          ''      identifier: '' @ sq @ sc_identifier shortcut @ sq @ '';'' @ nl @
          ''      nonce: string;'' @ nl @
          ''      parameters?: never;'' @ nl @
          ''      userConfirmed?: boolean;'' @ nl @
          ''    }'')"
proof (intro conjI impI)
  show "\<forall>call \<in> set (nativeCallback listeners nativeData).
       inv_parameters (snd call) \<noteq> None
     \<and> inv_parameters (snd call)
         = Some (case nsd_parameters nativeData of None \<Rightarrow> [] | Some ps \<Rightarrow> ps)
     \<and> inv_identifier (snd call) = nsd_identifier nativeData
     \<and> inv_nonce (snd call) = nsd_nonce nativeData"
    by (auto simp: nativeCallback_def handleShortcutInvocation_def)
next
  assume "nsd_parameters nativeData = None"
  then show "\<forall>call \<in> set (nativeCallback listeners nativeData). inv_parameters (snd call) = Some []"
    by (auto simp: nativeCallback_def handleShortcutInvocation_def)
next
  show "map fst (nativeCallback listeners nativeData) = listeners"
    by (simp add: nativeCallback_def handleShortcutInvocation_def comp_def)
next
  assume "sc_parameters shortcut = None \<or> sc_parameters shortcut = Some []"
  then have "\<not> hasParameters shortcut" by (auto simp: hasParameters_def)
  then show "shortcutType shortcut =
          ''  | {'' @ nl @
          ''      identifier: '' @ sq @ sc_identifier shortcut @ sq @ '';'' @ nl @
          ''      nonce: string;'' @ nl @
          ''      parameters?: never;'' @ nl @
          ''      userConfirmed?: boolean;'' @ nl @
          ''    }''"
    by (simp add: shortcutType_def)
qed

theorem delivered_parameters_always_object_witness:
  "nativeCallback [''listenerA'', ''listenerB'']
     \<lparr>nsd_identifier = ''startTimer'', nsd_nonce = ''N1'',
      nsd_parameters = (None :: (string \<times> int) list option), nsd_userConfirmed = None\<rparr>
   = [(''listenerA'', \<lparr>inv_identifier = ''startTimer'', inv_nonce = ''N1'',
                        inv_parameters = Some [], inv_userConfirmed = None\<rparr>),
      (''listenerB'', \<lparr>inv_identifier = ''startTimer'', inv_nonce = ''N1'',
                        inv_parameters = Some [], inv_userConfirmed = None\<rparr>)]
   \<and> shortcutType
        (\<lparr>sc_identifier = ''startTimer'', sc_title = ''Start Timer'', sc_phrases = [''Start timer''],
          sc_systemImageName = None, sc_description = None, sc_stateDialogs = None,
          sc_parameters = None\<rparr> :: int ShortcutDefinition)
      = ''  | {'' @ nl @ ''      identifier: '' @ sq @ ''startTimer'' @ sq @ '';'' @ nl @
        ''      nonce: string;'' @ nl @ ''      parameters?: never;'' @ nl @
        ''      userConfirmed?: boolean;'' @ nl @ ''    }''"
proof -
  let ?nd = "\<lparr>nsd_identifier = ''startTimer'', nsd_nonce = ''N1'',
      nsd_parameters = (None :: (string \<times> int) list option), nsd_userConfirmed = None\<rparr>"
  let ?sc = "\<lparr>sc_identifier = ''startTimer'', sc_title = ''Start Timer'', sc_phrases = [''Start timer''],
          sc_systemImageName = None, sc_description = None, sc_stateDialogs = None,
          sc_parameters = None\<rparr> :: int ShortcutDefinition"
  let ?ls = "[''listenerA'', ''listenerB'']"
  note t = delivered_parameters_always_object [of ?ls ?nd ?sc]
  from t have all: "\<forall>call \<in> set (nativeCallback ?ls ?nd).
       inv_parameters (snd call) = Some [] \<and> inv_identifier (snd call) = ''startTimer''
     \<and> inv_nonce (snd call) = ''N1''"
    by simp
  from t have fsts: "map fst (nativeCallback ?ls ?nd) = ?ls" by blast
  from t have ty: "shortcutType ?sc =
          ''  | {'' @ nl @ ''      identifier: '' @ sq @ sc_identifier ?sc @ sq @ '';'' @ nl @
          ''      nonce: string;'' @ nl @ ''      parameters?: never;'' @ nl @
          ''      userConfirmed?: boolean;'' @ nl @ ''    }''"
    by simp
  have uc: "\<forall>call \<in> set (nativeCallback ?ls ?nd). inv_userConfirmed (snd call) = None"
    by (simp add: nativeCallback_def handleShortcutInvocation_def)
  from fsts obtain a b where ab: "nativeCallback ?ls ?nd = [(''listenerA'', a), (''listenerB'', b)]"
    by (auto simp: map_eq_Cons_conv)
  with all uc have "a = \<lparr>inv_identifier = ''startTimer'', inv_nonce = ''N1'',
                        inv_parameters = Some [], inv_userConfirmed = None\<rparr>"
    "b = \<lparr>inv_identifier = ''startTimer'', inv_nonce = ''N1'',
                        inv_parameters = Some [], inv_userConfirmed = None\<rparr>"
    by (cases a; cases b; simp)+
  with ab ty show ?thesis by simp
qed

section \<open>The application-side handler (ios/IosIntents.swift, handleDarwinNotification)\<close>

text \<open>A decoded parameter: the cases of the variant handed to the callback.\<close>

datatype 'n paramValue = PVDate 'n | PVBool bool | PVString string | PVNumber 'n

text \<open>
  The body of the loop over all keys that reads the parameters: for a key with the
  parameter prefix, the value decoded by its type marker, assigned in the dictionary.
\<close>

definition readParameter ::
  "('n pvalue \<Rightarrow> string option) \<Rightarrow> ('n pvalue option \<Rightarrow> 'n) \<Rightarrow> 'n defaults \<Rightarrow> string \<Rightarrow>
   (string \<times> ('n::zero) paramValue) list \<Rightarrow> (string \<times> 'n paramValue) list" where
  "readParameter asString asDouble defaults key parameters =
     (if prefix ''IosIntentsParam_'' key then
        (let paramName = drop (length ''IosIntentsParam_'') key;
             typeKey = ''IosIntentsParamType_'' @ paramName;
             paramType = string_forKey asString defaults typeKey
         in if paramType = Some ''date'' then
              AList.update paramName (PVDate (double_forKey asDouble defaults key)) parameters
            else
              (case (if paramType = Some ''boolean'' then number_forKey defaults key else None) of
                 Some boolValue \<Rightarrow> AList.update paramName (PVBool (boolValue \<noteq> 0)) parameters
               | None \<Rightarrow>
                   (case string_forKey asString defaults key of
                      Some stringValue \<Rightarrow> AList.update paramName (PVString stringValue) parameters
                    | None \<Rightarrow>
                        (case number_forKey defaults key of
                           Some numberValue \<Rightarrow>
                             AList.update paramName (PVNumber numberValue) parameters
                         | None \<Rightarrow> parameters))))
      else parameters)"

text \<open>
  What the handler holds after its reads: the pending command and the nonce under which
  the handling began, the confirmation flag, the parameters, and the keys of the store as
  they were enumerated. \<open>None\<close> when there is no pending command or no nonce (the handler
  returns).
\<close>

record 'n command_read =
  cr_pendingCommand :: string
  cr_commandNonce :: string
  cr_userConfirmed :: "bool option"
  cr_parameters :: "(string \<times> 'n paramValue) list"
  cr_allKeys :: "string list"

definition readPendingCommand ::
  "('n pvalue \<Rightarrow> string option) \<Rightarrow> ('n pvalue option \<Rightarrow> 'n) \<Rightarrow> ('n::zero) defaults \<Rightarrow>
   'n command_read option" where
  "readPendingCommand asString asDouble defaults =
     (case string_forKey asString defaults ''IosIntentsPendingCommand'' of
        None \<Rightarrow> None
      | Some pendingCommand \<Rightarrow>
          (case string_forKey asString defaults ''IosIntentsCommandNonce'' of
             None \<Rightarrow> None
           | Some commandNonce \<Rightarrow>
               (let allKeys = map fst defaults
                in Some \<lparr>cr_pendingCommand = pendingCommand,
                         cr_commandNonce = commandNonce,
                         cr_userConfirmed =
                           map_option (\<lambda>n. n \<noteq> 0) (number_forKey defaults ''IosIntentsUserConfirmed''),
                         cr_parameters =
                           fold (readParameter asString asDouble defaults) allKeys [],
                         cr_allKeys = allKeys\<rparr>)))"

text \<open>
  The clear: the nonce is read again, and only when it is still the nonce read at the
  beginning are the command keys and the enumerated parameter and type-marker keys removed.
\<close>

definition clearPendingCommand ::
  "('n pvalue \<Rightarrow> string option) \<Rightarrow> 'n command_read \<Rightarrow> 'n defaults \<Rightarrow> 'n defaults" where
  "clearPendingCommand asString read defaults =
     (let currentNonce = string_forKey asString defaults ''IosIntentsCommandNonce''
      in if currentNonce = Some (cr_commandNonce read) then
           fold (\<lambda>key d.
                   if prefix ''IosIntentsParam_'' key \<or> prefix ''IosIntentsParamType_'' key
                   then removeObject key d else d)
             (cr_allKeys read)
             (removeObject ''IosIntentsUserConfirmed''
               (removeObject ''IosIntentsCommandTimestamp''
                 (removeObject ''IosIntentsCommandNonce''
                   (removeObject ''IosIntentsPendingCommand'' defaults))))
         else defaults)"

text \<open>
  The handler. The intent runs in another process and may write to the store while the
  handler runs: \<open>interference\<close> is what it writes between the handler's reads and the
  second read of the nonce (the identity when it writes nothing). The result is the store
  afterwards and the data handed to invokeShortcut, with nil for an empty dictionary.
\<close>

definition handleDarwinNotification ::
  "('n pvalue \<Rightarrow> string option) \<Rightarrow> ('n pvalue option \<Rightarrow> 'n) \<Rightarrow> ('n defaults \<Rightarrow> 'n defaults) \<Rightarrow>
   ('n::zero) defaults option \<Rightarrow> 'n defaults option \<times> 'n paramValue NativeShortcutData option" where
  "handleDarwinNotification asString asDouble interference sharedDefaults =
     (case sharedDefaults of
        None \<Rightarrow> (None, None)
      | Some defaults \<Rightarrow>
          (case readPendingCommand asString asDouble defaults of
             None \<Rightarrow> (Some defaults, None)
           | Some read \<Rightarrow>
               (Some (clearPendingCommand asString read (interference defaults)),
                Some \<lparr>nsd_identifier = cr_pendingCommand read,
                      nsd_nonce = cr_commandNonce read,
                      nsd_parameters =
                        (if cr_parameters read = [] then None else Some (cr_parameters read)),
                      nsd_userConfirmed = cr_userConfirmed read\<rparr>)))"

definition commandKeys :: "string list" where
  "commandKeys = [''IosIntentsPendingCommand'', ''IosIntentsCommandNonce'',
                  ''IosIntentsCommandTimestamp'', ''IosIntentsUserConfirmed'']"

definition isParameterKey :: "string \<Rightarrow> bool" where
  "isParameterKey key = (prefix ''IosIntentsParam_'' key \<or> prefix ''IosIntentsParamType_'' key)"

section \<open>Properties of the handler\<close>

lemma map_of_remove_parameter_keys:
  "map_of (fold (\<lambda>key d. if prefix ''IosIntentsParam_'' key \<or> prefix ''IosIntentsParamType_'' key
                          then removeObject key d else d) keys d0) k
   = (if k \<in> set keys \<and> isParameterKey k then None else map_of d0 k)"
proof (induction keys arbitrary: d0)
  case Nil
  show ?case by simp
next
  case (Cons key keys)
  show ?case
    unfolding fold_simps Cons.IH
    by (auto simp: removeObject_def delete_conv' isParameterKey_def)
qed

lemma clearPendingCommand_stale:
  "string_forKey asString defaults ''IosIntentsCommandNonce'' \<noteq> Some (cr_commandNonce read)
   \<Longrightarrow> clearPendingCommand asString read defaults = defaults"
  by (simp add: clearPendingCommand_def)

lemma clearPendingCommand_current:
  assumes "string_forKey asString defaults ''IosIntentsCommandNonce'' = Some (cr_commandNonce read)"
  shows "object_forKey (clearPendingCommand asString read defaults) k =
     (if k \<in> set commandKeys \<or> (k \<in> set (cr_allKeys read) \<and> isParameterKey k) then None
      else object_forKey defaults k)"
  using assms
  by (simp add: clearPendingCommand_def object_forKey_def map_of_remove_parameter_keys
        removeObject_def delete_conv' commandKeys_def)

text \<open>
  Claim C1. Whatever the handler has read, and whatever the store holds when the handler
  comes to the clear: if the nonce now stored is not the nonce read when the handling
  began, the clear leaves the store as it is, so every key of the newer command stays; if
  it is the same nonce, the pending command, nonce, timestamp and confirmation flag and
  the enumerated parameter and type-marker keys are gone afterwards and every other key
  is untouched. So a key is removed only under the nonce read at the beginning. The store
  the handler leaves is the result of this clear on the store as the intent has left it.
\<close>

theorem clear_only_under_own_nonce:
  "(string_forKey asString defaults ''IosIntentsCommandNonce'' \<noteq> Some (cr_commandNonce read)
      \<longrightarrow> clearPendingCommand asString read defaults = defaults)
   \<and> (string_forKey asString defaults ''IosIntentsCommandNonce'' = Some (cr_commandNonce read)
      \<longrightarrow> (\<forall>k. object_forKey (clearPendingCommand asString read defaults) k =
             (if k \<in> set commandKeys \<or> (k \<in> set (cr_allKeys read) \<and> isParameterKey k) then None
              else object_forKey defaults k)))
   \<and> (object_forKey (clearPendingCommand asString read defaults) k \<noteq> object_forKey defaults k
      \<longrightarrow> string_forKey asString defaults ''IosIntentsCommandNonce'' = Some (cr_commandNonce read))
   \<and> (readPendingCommand asString asDouble stored = Some read
      \<longrightarrow> fst (handleDarwinNotification asString asDouble interference (Some stored))
            = Some (clearPendingCommand asString read (interference stored))
          \<and> cr_commandNonce read = the (string_forKey asString stored ''IosIntentsCommandNonce'')
          \<and> cr_allKeys read = map fst stored)"
proof (intro conjI impI allI)
  assume "string_forKey asString defaults ''IosIntentsCommandNonce'' \<noteq> Some (cr_commandNonce read)"
  then show "clearPendingCommand asString read defaults = defaults"
    by (rule clearPendingCommand_stale)
next
  fix k'
  assume "string_forKey asString defaults ''IosIntentsCommandNonce'' = Some (cr_commandNonce read)"
  then show "object_forKey (clearPendingCommand asString read defaults) k' =
             (if k' \<in> set commandKeys \<or> (k' \<in> set (cr_allKeys read) \<and> isParameterKey k') then None
              else object_forKey defaults k')"
    by (rule clearPendingCommand_current)
next
  assume changed:
    "object_forKey (clearPendingCommand asString read defaults) k \<noteq> object_forKey defaults k"
  show "string_forKey asString defaults ''IosIntentsCommandNonce'' = Some (cr_commandNonce read)"
  proof (rule ccontr)
    assume "string_forKey asString defaults ''IosIntentsCommandNonce'' \<noteq> Some (cr_commandNonce read)"
    then have "clearPendingCommand asString read defaults = defaults"
      by (rule clearPendingCommand_stale)
    with changed show False by simp
  qed
next
  assume r: "readPendingCommand asString asDouble stored = Some read"
  then show "fst (handleDarwinNotification asString asDouble interference (Some stored))
            = Some (clearPendingCommand asString read (interference stored))"
    by (simp add: handleDarwinNotification_def)
  from r show "cr_commandNonce read = the (string_forKey asString stored ''IosIntentsCommandNonce'')"
    by (auto simp: readPendingCommand_def Let_def split: option.splits)
  from r show "cr_allKeys read = map fst stored"
    by (auto simp: readPendingCommand_def Let_def split: option.splits)
qed

theorem clear_only_under_own_nonce_witness:
  "fst (handleDarwinNotification
          (\<lambda>v. case v of PString s \<Rightarrow> Some s | _ \<Rightarrow> None) (\<lambda>v. 0 :: int)
          (\<lambda>d. [(''IosIntentsPendingCommand'', PString ''stopTimer''),
                 (''IosIntentsCommandNonce'', PString ''N2''),
                 (''IosIntentsParam_task'', PString ''Milk'')])
          (Some [(''IosIntentsPendingCommand'', PString ''addTask''),
                 (''IosIntentsCommandNonce'', PString ''N1''),
                 (''IosIntentsParam_task'', PString ''Milk'')]))
   = Some [(''IosIntentsPendingCommand'', PString ''stopTimer''),
           (''IosIntentsCommandNonce'', PString ''N2''),
           (''IosIntentsParam_task'', PString ''Milk'')]
   \<and> fst (handleDarwinNotification
          (\<lambda>v. case v of PString s \<Rightarrow> Some s | _ \<Rightarrow> None) (\<lambda>v. 0 :: int) (\<lambda>d. d)
          (Some [(''IosIntentsPendingCommand'', PString ''addTask''),
                 (''IosIntentsCommandNonce'', PString ''N1''),
                 (''IosIntentsParam_task'', PString ''Milk''),
                 (''appState_running'', PNumber 1)]))
   = Some [(''appState_running'', PNumber 1)]"
proof -
  let ?as = "\<lambda>v :: int pvalue. case v of PString s \<Rightarrow> Some s | _ \<Rightarrow> None"
  let ?ad = "\<lambda>v :: int pvalue option. 0 :: int"
  let ?old = "[(''IosIntentsPendingCommand'', PString ''addTask''),
               (''IosIntentsCommandNonce'', PString ''N1''),
               (''IosIntentsParam_task'', PString ''Milk'')] :: int defaults"
  let ?new = "[(''IosIntentsPendingCommand'', PString ''stopTimer''),
               (''IosIntentsCommandNonce'', PString ''N2''),
               (''IosIntentsParam_task'', PString ''Milk'')] :: int defaults"
  let ?old2 = "[(''IosIntentsPendingCommand'', PString ''addTask''),
               (''IosIntentsCommandNonce'', PString ''N1''),
               (''IosIntentsParam_task'', PString ''Milk''),
               (''appState_running'', PNumber 1)] :: int defaults"
  let ?r = "the (readPendingCommand ?as ?ad ?old)"
  let ?r2 = "the (readPendingCommand ?as ?ad ?old2)"
  have r: "readPendingCommand ?as ?ad ?old = Some ?r"
    by (simp add: readPendingCommand_def string_forKey_def)
  have r2: "readPendingCommand ?as ?ad ?old2 = Some ?r2"
    by (simp add: readPendingCommand_def string_forKey_def)
  have n: "cr_commandNonce ?r = ''N1''" "cr_commandNonce ?r2 = ''N1''"
    "cr_allKeys ?r2 = map fst ?old2"
    by (simp_all add: readPendingCommand_def string_forKey_def)
  have stale: "string_forKey ?as ?new ''IosIntentsCommandNonce'' \<noteq> Some (cr_commandNonce ?r)"
    unfolding n by (simp add: string_forKey_def)
  note t = clear_only_under_own_nonce [of ?as ?new ?r _ ?ad ?old "\<lambda>d. ?new"]
  from t stale have a: "clearPendingCommand ?as ?r ?new = ?new" by blast
  from t r have b: "fst (handleDarwinNotification ?as ?ad (\<lambda>d. ?new) (Some ?old))
      = Some (clearPendingCommand ?as ?r ?new)" by blast
  note t2 = clear_only_under_own_nonce [of ?as ?old2 ?r2 _ ?ad ?old2 "\<lambda>d. d"]
  from t2 r2 have c: "fst (handleDarwinNotification ?as ?ad (\<lambda>d. d) (Some ?old2))
      = Some (clearPendingCommand ?as ?r2 ?old2)" by blast
  have d: "clearPendingCommand ?as ?r2 ?old2 = [(''appState_running'', PNumber 1)]"
    unfolding clearPendingCommand_def Let_def n
    by (simp add: string_forKey_def removeObject_def AList.delete_eq)
  from a b c d show ?thesis by simp
qed

section \<open>The phrase table (src/cli/utils.ts, mergeAppShortcutsStrings)\<close>

text \<open>\<^verbatim>\<open>str.split(c)\<close> for a single character: the pieces between the occurrences.\<close>

fun splitOn :: "char \<Rightarrow> string \<Rightarrow> string list" where
  "splitOn c [] = [[]]"
| "splitOn c (x # xs) =
     (if x = c then [] # splitOn c xs
      else (case splitOn c xs of
              [] \<Rightarrow> [[x]]
            | piece # pieces \<Rightarrow> (x # piece) # pieces))"

text \<open>
  \<^verbatim>\<open>\s\<close> and the line terminators that \<^verbatim>\<open>.\<close> does not match, on the code units below
  256.
\<close>

definition isSpace :: "char \<Rightarrow> bool" where
  "isSpace c = ((of_char c :: nat) \<in> {9, 10, 11, 12, 13, 32, 160})"

definition isLineTerminator :: "char \<Rightarrow> bool" where
  "isLineTerminator c = ((of_char c :: nat) \<in> {10, 13})"

text \<open>
  \<^verbatim>\<open>((?:[^"\\]|\\.)*)"\<close> tried at the start of a string: the captured body and the text
  after the closing quote. At each position at most one alternative applies (a quote ends
  the body, a backslash takes the next character with it, any other character is taken
  alone), so there is one way to match or none.
\<close>

fun scanQuoted :: "string \<Rightarrow> (string \<times> string) option" where
  "scanQuoted [] = None"
| "scanQuoted [c] = (if c = CHR 0x22 then Some ([], []) else None)"
| "scanQuoted (c # e # cs) =
     (if c = CHR 0x22 then Some ([], e # cs)
      else if c = CHR 0x5C then
        (if isLineTerminator e then None
         else (case scanQuoted cs of
                 None \<Rightarrow> None
               | Some (body, rest) \<Rightarrow> Some (c # e # body, rest)))
      else (case scanQuoted (e # cs) of
              None \<Rightarrow> None
            | Some (body, rest) \<Rightarrow> Some (c # body, rest)))"

text \<open>
  \<^verbatim>\<open>line.match(/^"((?:[^"\\]|\\.)*)"\s*=\s*"((?:[^"\\]|\\.)*)";/)\<close>: the captured key and
  value, or \<open>None\<close> when the line does not match. Whitespace runs are greedy, and neither
  the equals sign nor the quote is whitespace.
\<close>

definition matchLine :: "string \<Rightarrow> (string \<times> string) option" where
  "matchLine line =
     (case line of
        [] \<Rightarrow> None
      | q # r \<Rightarrow>
          if q \<noteq> CHR 0x22 then None
          else
            (case scanQuoted r of
               None \<Rightarrow> None
             | Some (key, r1) \<Rightarrow>
                 (case dropWhile isSpace r1 of
                    [] \<Rightarrow> None
                  | e # r2 \<Rightarrow>
                      if e \<noteq> CHR ''='' then None
                      else
                        (case dropWhile isSpace r2 of
                           [] \<Rightarrow> None
                         | q2 # r3 \<Rightarrow>
                             if q2 \<noteq> CHR 0x22 then None
                             else
                               (case scanQuoted r3 of
                                  None \<Rightarrow> None
                                | Some (value, r4) \<Rightarrow>
                                    (case r4 of
                                       [] \<Rightarrow> None
                                     | s # r5 \<Rightarrow>
                                         if s = CHR '';'' then Some (key, value) else None))))))"

text \<open>
  The lines kept from the existing content: nothing for null or the empty string,
  otherwise every line that matches, added to the set in order.
\<close>

definition keepLine :: "string \<Rightarrow> string list \<Rightarrow> string list" where
  "keepLine line phrases = (if matchLine line \<noteq> None then setAdd phrases line else phrases)"

definition existingLines :: "string option \<Rightarrow> string list" where
  "existingLines existingContent =
     (case existingContent of
        None \<Rightarrow> []
      | Some content \<Rightarrow>
          if content = [] then [] else fold keepLine (splitOn (CHR 0x0A) content) [])"

definition phraseEntry :: "string \<Rightarrow> string" where
  "phraseEntry phrase = dq @ phrase @ dq @ '' = '' @ dq @ phrase @ dq @ '';''"

definition quotedPhrase :: "string \<Rightarrow> string" where
  "quotedPhrase phrase = dq @ phrase @ dq"

text \<open>The body of \<^verbatim>\<open>newPhrases.forEach\<close>.\<close>

definition addPhrase :: "string \<Rightarrow> string list \<Rightarrow> string list" where
  "addPhrase phrase phrases =
     (if \<not> list_ex (\<lambda>p. prefix (quotedPhrase phrase) p) phrases
      then setAdd phrases (phraseEntry phrase) else phrases)"

definition mergedLines :: "string list \<Rightarrow> string option \<Rightarrow> string list" where
  "mergedLines newPhrases existingContent =
     fold addPhrase newPhrases (existingLines existingContent)"

definition mergeAppShortcutsStrings :: "string list \<Rightarrow> string option \<Rightarrow> string" where
  "mergeAppShortcutsStrings newPhrases existingContent =
     joinWith nl (mergedLines newPhrases existingContent)"

section \<open>Properties of mergeAppShortcutsStrings\<close>

lemma set_setAdd: "set (setAdd s x) = insert x (set s)"
  by (auto simp: setAdd_def)

lemma distinct_setAdd: "distinct s \<Longrightarrow> distinct (setAdd s x)"
  by (simp add: setAdd_def)

lemma fold_keepLine_set:
  "set (fold keepLine xs acc) = set acc \<union> {l \<in> set xs. matchLine l \<noteq> None}"
  by (induction xs arbitrary: acc) (auto simp: keepLine_def set_setAdd)

lemma fold_keepLine_distinct: "distinct acc \<Longrightarrow> distinct (fold keepLine xs acc)"
  by (induction xs arbitrary: acc) (simp_all add: keepLine_def distinct_setAdd)

lemma fold_keepLine_subseq: "\<exists>ys. fold keepLine xs acc = acc @ ys \<and> subseq ys xs"
proof (induction xs arbitrary: acc)
  case Nil
  show ?case by simp
next
  case (Cons x xs)
  from Cons.IH [of "keepLine x acc"] obtain ys
    where ys: "fold keepLine xs (keepLine x acc) = keepLine x acc @ ys" "subseq ys xs"
    by blast
  show ?case
  proof (cases "keepLine x acc = acc")
    case True
    with ys show ?thesis by (auto intro: subseq_Cons')
  next
    case False
    then have "keepLine x acc = acc @ [x]"
      by (auto simp: keepLine_def setAdd_def split: if_splits)
    with ys show ?thesis by auto
  qed
qed

lemma scanQuoted_sound:
  "scanQuoted r = Some (body, rest) \<Longrightarrow> r = body @ dq @ rest"
proof (induction r arbitrary: body rule: scanQuoted.induct)
  case 1
  then show ?case by simp
next
  case (2 c)
  then show ?case by (auto simp: dq_def split: if_splits)
next
  case (3 c e cs)
  then show ?case
    by (auto simp: dq_def split: if_splits option.splits)
qed

lemma matchLine_key_prefix:
  assumes "matchLine l = Some (k, v)"
  shows "prefix (quotedPhrase k) l"
proof -
  from assms obtain r r1 where l: "l = CHR 0x22 # r" and s: "scanQuoted r = Some (k, r1)"
    by (auto simp: matchLine_def split: list.splits if_splits option.splits)
  from scanQuoted_sound [OF s] l have "l = quotedPhrase k @ r1"
    by (simp add: quotedPhrase_def dq_def)
  then show ?thesis by simp
qed

lemma phraseEntry_prefix: "prefix (quotedPhrase p) (phraseEntry p)"
  by (simp add: quotedPhrase_def phraseEntry_def)

lemma phraseEntry_inj:
  assumes "phraseEntry p = phraseEntry q"
  shows "p = q"
proof -
  from assms have "length (phraseEntry p) = length (phraseEntry q)" by simp
  then have len: "length p = length q" by (simp add: phraseEntry_def dq_def)
  from assms have "p @ (dq @ '' = '' @ dq @ p @ dq @ '';'') = q @ (dq @ '' = '' @ dq @ q @ dq @ '';'')"
    by (simp add: phraseEntry_def dq_def)
  with len show ?thesis by (metis append_eq_append_conv)
qed

lemma fold_addPhrase_appends:
  "\<exists>app. fold addPhrase new s = s @ app
     \<and> subseq app (map phraseEntry new)
     \<and> distinct app
     \<and> set app \<inter> set s = {}
     \<and> (\<forall>p. phraseEntry p \<in> set app \<longrightarrow> (\<forall>l \<in> set s. \<not> prefix (quotedPhrase p) l))"
proof (induction new arbitrary: s)
  case Nil
  show ?case by simp
next
  case (Cons p ps)
  show ?case
  proof (cases "list_ex (\<lambda>l. prefix (quotedPhrase p) l) s")
    case True
    then have "addPhrase p s = s" by (simp add: addPhrase_def)
    with Cons.IH [of s] show ?thesis by (auto intro: subseq_Cons')
  next
    case False
    then have none: "\<forall>l \<in> set s. \<not> prefix (quotedPhrase p) l"
      by (simp add: list_ex_iff)
    with phraseEntry_prefix [of p] have fresh: "phraseEntry p \<notin> set s" by auto
    with False have step: "addPhrase p s = s @ [phraseEntry p]"
      by (simp add: addPhrase_def setAdd_def)
    from Cons.IH [of "s @ [phraseEntry p]"] obtain app where
      app: "fold addPhrase ps (s @ [phraseEntry p]) = (s @ [phraseEntry p]) @ app"
        "subseq app (map phraseEntry ps)" "distinct app"
        "set app \<inter> set (s @ [phraseEntry p]) = {}"
        "\<forall>q. phraseEntry q \<in> set app \<longrightarrow>
           (\<forall>l \<in> set (s @ [phraseEntry p]). \<not> prefix (quotedPhrase q) l)"
      by blast
    have "fold addPhrase (p # ps) s = s @ (phraseEntry p # app)"
      using step app(1) by simp
    moreover have "subseq (phraseEntry p # app) (map phraseEntry (p # ps))"
      using app(2) by simp
    moreover have "distinct (phraseEntry p # app)"
      using app(3,4) by auto
    moreover have "set (phraseEntry p # app) \<inter> set s = {}"
      using app(4) fresh by auto
    moreover have "\<forall>q. phraseEntry q \<in> set (phraseEntry p # app) \<longrightarrow>
           (\<forall>l \<in> set s. \<not> prefix (quotedPhrase q) l)"
      using app(5) none by (auto dest: phraseEntry_inj)
    ultimately show ?thesis by blast
  qed
qed

lemma fold_addPhrase_represents:
  "p \<in> set new \<Longrightarrow> \<exists>l \<in> set (fold addPhrase new s). prefix (quotedPhrase p) l"
proof (induction new arbitrary: s)
  case Nil
  then show ?case by simp
next
  case (Cons q qs)
  show ?case
  proof (cases "p \<in> set qs")
    case True
    from Cons.IH [OF True] show ?thesis by simp
  next
    case False
    with Cons.prems have pq: "q = p" by simp
    have "\<exists>l \<in> set (addPhrase p s). prefix (quotedPhrase p) l"
      by (auto simp: addPhrase_def set_setAdd list_ex_iff phraseEntry_prefix)
    then obtain l where l: "l \<in> set (addPhrase p s)" "prefix (quotedPhrase p) l" by blast
    from fold_addPhrase_appends [of qs "addPhrase p s"] l(1)
    have "l \<in> set (fold addPhrase qs (addPhrase p s))" by auto
    with l(2) pq show ?thesis by auto
  qed
qed

text \<open>
  Claim C5. The merged table is the kept existing lines followed by the appended lines,
  joined by newlines. The kept lines are the lines of the existing text that match the
  grammar, each verbatim and once, in their original order; the others are dropped; a
  missing or empty text gives none. The appended lines are identity lines of new phrases,
  in the order of the input and without repetition, and a phrase gets one only if no kept
  line begins with the quoted phrase, in particular only if no kept line has the phrase
  as its key, whatever its translation. Every new phrase is represented in the result.
  Merging A, A into an empty table gives the single line for A.
\<close>

theorem phrase_merge_keeps_and_appends:
  "(\<exists>appended.
       mergedLines newPhrases ex = existingLines ex @ appended
     \<and> subseq appended (map phraseEntry newPhrases)
     \<and> distinct appended
     \<and> set appended \<inter> set (existingLines ex) = {}
     \<and> (\<forall>p. phraseEntry p \<in> set appended \<longrightarrow>
           (\<forall>l \<in> set (existingLines ex).
              \<not> prefix (quotedPhrase p) l \<and> map_option fst (matchLine l) \<noteq> Some p)))
   \<and> (\<forall>p \<in> set newPhrases. \<exists>l \<in> set (mergedLines newPhrases ex). prefix (quotedPhrase p) l)
   \<and> (\<forall>content. ex = Some content \<and> content \<noteq> [] \<longrightarrow>
         set (existingLines ex) = {l \<in> set (splitOn (CHR 0x0A) content). matchLine l \<noteq> None}
       \<and> distinct (existingLines ex)
       \<and> subseq (existingLines ex) (splitOn (CHR 0x0A) content))
   \<and> (ex = None \<or> ex = Some [] \<longrightarrow> existingLines ex = [])
   \<and> mergeAppShortcutsStrings newPhrases ex = joinWith nl (mergedLines newPhrases ex)
   \<and> mergeAppShortcutsStrings [''A'', ''A''] None = dq @ ''A'' @ dq @ '' = '' @ dq @ ''A'' @ dq @ '';''
   \<and> mergeAppShortcutsStrings [''A'', ''A''] (Some []) = dq @ ''A'' @ dq @ '' = '' @ dq @ ''A'' @ dq @ '';''"
proof (intro conjI)
  from fold_addPhrase_appends [of newPhrases "existingLines ex"] obtain app where
    app: "fold addPhrase newPhrases (existingLines ex) = existingLines ex @ app"
      "subseq app (map phraseEntry newPhrases)" "distinct app"
      "set app \<inter> set (existingLines ex) = {}"
      "\<forall>p. phraseEntry p \<in> set app \<longrightarrow>
         (\<forall>l \<in> set (existingLines ex). \<not> prefix (quotedPhrase p) l)"
    by blast
  have key: "\<forall>p. phraseEntry p \<in> set app \<longrightarrow>
      (\<forall>l \<in> set (existingLines ex).
         \<not> prefix (quotedPhrase p) l \<and> map_option fst (matchLine l) \<noteq> Some p)"
  proof (intro allI impI ballI conjI)
    fix p l
    assume p: "phraseEntry p \<in> set app" and l: "l \<in> set (existingLines ex)"
    with app(5) show np: "\<not> prefix (quotedPhrase p) l" by blast
    show "map_option fst (matchLine l) \<noteq> Some p"
    proof
      assume "map_option fst (matchLine l) = Some p"
      then obtain v where "matchLine l = Some (p, v)" by auto
      from matchLine_key_prefix [OF this] np show False by simp
    qed
  qed
  from app(1-4) key
  show "\<exists>appended.
       mergedLines newPhrases ex = existingLines ex @ appended
     \<and> subseq appended (map phraseEntry newPhrases)
     \<and> distinct appended
     \<and> set appended \<inter> set (existingLines ex) = {}
     \<and> (\<forall>p. phraseEntry p \<in> set appended \<longrightarrow>
           (\<forall>l \<in> set (existingLines ex).
              \<not> prefix (quotedPhrase p) l \<and> map_option fst (matchLine l) \<noteq> Some p))"
    unfolding mergedLines_def by blast
next
  show "\<forall>p \<in> set newPhrases. \<exists>l \<in> set (mergedLines newPhrases ex). prefix (quotedPhrase p) l"
    unfolding mergedLines_def by (blast intro: fold_addPhrase_represents)
next
  show "\<forall>content. ex = Some content \<and> content \<noteq> [] \<longrightarrow>
         set (existingLines ex) = {l \<in> set (splitOn (CHR 0x0A) content). matchLine l \<noteq> None}
       \<and> distinct (existingLines ex)
       \<and> subseq (existingLines ex) (splitOn (CHR 0x0A) content)"
  proof (intro allI impI)
    fix content
    assume "ex = Some content \<and> content \<noteq> []"
    then have e: "existingLines ex = fold keepLine (splitOn (CHR 0x0A) content) []"
      by (simp add: existingLines_def)
    from fold_keepLine_subseq [of "splitOn (CHR 0x0A) content" "[]"]
    have "subseq (existingLines ex) (splitOn (CHR 0x0A) content)"
      unfolding e by auto
    then show "set (existingLines ex) = {l \<in> set (splitOn (CHR 0x0A) content). matchLine l \<noteq> None}
       \<and> distinct (existingLines ex)
       \<and> subseq (existingLines ex) (splitOn (CHR 0x0A) content)"
      unfolding e by (simp add: fold_keepLine_set fold_keepLine_distinct)
  qed
next
  show "ex = None \<or> ex = Some [] \<longrightarrow> existingLines ex = []"
    by (auto simp: existingLines_def)
next
  show "mergeAppShortcutsStrings newPhrases ex = joinWith nl (mergedLines newPhrases ex)"
    by (simp add: mergeAppShortcutsStrings_def)
next
  show "mergeAppShortcutsStrings [''A'', ''A''] None = dq @ ''A'' @ dq @ '' = '' @ dq @ ''A'' @ dq @ '';''"
    by (simp add: mergeAppShortcutsStrings_def mergedLines_def existingLines_def addPhrase_def
          setAdd_def phraseEntry_def quotedPhrase_def dq_def)
next
  show "mergeAppShortcutsStrings [''A'', ''A''] (Some []) = dq @ ''A'' @ dq @ '' = '' @ dq @ ''A'' @ dq @ '';''"
    by (simp add: mergeAppShortcutsStrings_def mergedLines_def existingLines_def addPhrase_def
          setAdd_def phraseEntry_def quotedPhrase_def dq_def)
qed

theorem phrase_merge_keeps_and_appends_witness:
  "\<exists>appended.
     mergedLines [''Start'', ''Pause'', ''Pause'']
       (Some (dq @ ''Start'' @ dq @ '' = '' @ dq @ ''Go'' @ dq @ '';'' @ nl @ ''junk''))
       = existingLines (Some (dq @ ''Start'' @ dq @ '' = '' @ dq @ ''Go'' @ dq @ '';'' @ nl @ ''junk''))
         @ appended
   \<and> subseq appended (map phraseEntry [''Start'', ''Pause'', ''Pause''])
   \<and> distinct appended
   \<and> appended = [phraseEntry ''Pause'']
   \<and> existingLines (Some (dq @ ''Start'' @ dq @ '' = '' @ dq @ ''Go'' @ dq @ '';'' @ nl @ ''junk''))
       = [dq @ ''Start'' @ dq @ '' = '' @ dq @ ''Go'' @ dq @ '';'']"
proof -
  let ?ex = "Some (dq @ ''Start'' @ dq @ '' = '' @ dq @ ''Go'' @ dq @ '';'' @ nl @ ''junk'')"
  let ?new = "[''Start'', ''Pause'', ''Pause'']"
  have e: "existingLines ?ex = [dq @ ''Start'' @ dq @ '' = '' @ dq @ ''Go'' @ dq @ '';'']"
    by (simp add: existingLines_def keepLine_def matchLine_def setAdd_def dq_def nl_def
          isSpace_def)
  have m: "mergedLines ?new ?ex
      = [dq @ ''Start'' @ dq @ '' = '' @ dq @ ''Go'' @ dq @ '';'', phraseEntry ''Pause'']"
    unfolding mergedLines_def e
    by (simp add: addPhrase_def setAdd_def phraseEntry_def quotedPhrase_def dq_def)
  from phrase_merge_keeps_and_appends [of ?new ?ex] obtain appended where
    a: "mergedLines ?new ?ex = existingLines ?ex @ appended"
       "subseq appended (map phraseEntry ?new)" "distinct appended"
    by blast
  from a(1) have "appended = [phraseEntry ''Pause'']" unfolding m e by simp
  with a e show ?thesis by blast
qed

section \<open>The string catalog (src/cli/utils.ts, mergeStringCatalog)\<close>

text \<open>
  A JSON value as \<^verbatim>\<open>JSON.parse\<close> gives it and \<^verbatim>\<open>JSON.stringify\<close> writes it. The number
  type is a parameter. An object is the list of its own properties, with distinct keys.
\<close>

datatype 'n json =
  JNull | JBool bool | JNum 'n | JStr string | JArr "'n json list" | JObj "(string \<times> 'n json) list"

datatype js_error = TypeError

fun truthy :: "('n::zero) json \<Rightarrow> bool" where
  "truthy JNull = False"
| "truthy (JBool b) = b"
| "truthy (JNum n) = (n \<noteq> 0)"
| "truthy (JStr s) = (s \<noteq> [])"
| "truthy (JArr xs) = True"
| "truthy (JObj ps) = True"

text \<open>
  Reading a property that no prototype defines (strings, sourceLanguage, version,
  localizations): on null the read throws, on an object it gives the own property, on
  anything else it gives undefined (\<open>None\<close>).
\<close>

fun getMember :: "'n json \<Rightarrow> string \<Rightarrow> js_error + 'n json option" where
  "getMember JNull name = Inl TypeError"
| "getMember (JObj ps) name = Inr (map_of ps name)"
| "getMember v name = Inr None"

text \<open>
  \<^verbatim>\<open>{ ...value }\<close> for a truthy value: the own enumerable properties. An array and a
  string spread their elements under their indices; a number or a boolean has none.
\<close>

fun spread :: "'n json \<Rightarrow> (string \<times> 'n json) list" where
  "spread (JObj ps) = ps"
| "spread (JArr xs) = zip (map showNat [0..<length xs]) xs"
| "spread (JStr s) = zip (map showNat [0..<length s]) (map (\<lambda>c. JStr [c]) s)"
| "spread v = []"

record 'n catalog =
  cat_sourceLanguage :: "'n json"
  cat_strings :: "(string \<times> 'n json) list"
  cat_version :: "'n json"

definition baseCatalog :: "'n catalog" where
  "baseCatalog = \<lparr>cat_sourceLanguage = JStr ''en'', cat_strings = [], cat_version = JStr ''1.0''\<rparr>"

text \<open>
  The three guarded copies inside the \<^verbatim>\<open>try\<close>. On a parsed object none of the reads
  throws.
\<close>

definition copyExisting :: "('n::zero) json \<Rightarrow> 'n catalog" where
  "copyExisting existingCatalog =
     (let c1 = (case getMember existingCatalog ''strings'' of
                  Inr (Some s) \<Rightarrow> if truthy s then baseCatalog\<lparr>cat_strings := spread s\<rparr> else baseCatalog
                | _ \<Rightarrow> baseCatalog);
          c2 = (case getMember existingCatalog ''sourceLanguage'' of
                  Inr (Some l) \<Rightarrow> if truthy l then c1\<lparr>cat_sourceLanguage := l\<rparr> else c1
                | _ \<Rightarrow> c1);
          c3 = (case getMember existingCatalog ''version'' of
                  Inr (Some v) \<Rightarrow> if truthy v then c2\<lparr>cat_version := v\<rparr> else c2
                | _ \<Rightarrow> c2)
      in c3)"

text \<open>
  The catalog the merge starts from. \<open>parse\<close> is \<^verbatim>\<open>JSON.parse\<close>, \<open>None\<close> when it throws.
  The content is used only when it is a non-empty string; a parse error is caught, and so
  is the error of reading \<^verbatim>\<open>.strings\<close> of null, which happens before anything is
  assigned.
\<close>

definition startCatalog :: "(string \<Rightarrow> ('n::zero) json option) \<Rightarrow> string option \<Rightarrow> 'n catalog" where
  "startCatalog parse existingCatalogContent =
     (case existingCatalogContent of
        None \<Rightarrow> baseCatalog
      | Some content \<Rightarrow>
          if content = [] then baseCatalog
          else
            (case parse content of
               None \<Rightarrow> baseCatalog
             | Some existingCatalog \<Rightarrow>
                 if existingCatalog = JNull then baseCatalog else copyExisting existingCatalog))"

definition stringUnitEn :: "string \<Rightarrow> 'n json" where
  "stringUnitEn v =
     JObj [(''stringUnit'', JObj [(''state'', JStr ''translated''), (''value'', JStr v)])]"

definition freshEntry :: "string \<Rightarrow> 'n json" where
  "freshEntry v =
     JObj [(''extractionState'', JStr ''manual''),
           (''localizations'', JObj [(''en'', stringUnitEn v)])]"

text \<open>
  \<^verbatim>\<open>object[key] = value\<close> on the list of own properties, in the order in which
  JavaScript enumerates them: the array indices (canonical decimal strings up to
  \<open>2\<^sup>3\<^sup>2 - 2\<close>) in ascending order first, then the other keys in the order of
  their creation. An existing property keeps its place.
\<close>

definition isDigit :: "char \<Rightarrow> bool" where
  "isDigit c = (48 \<le> (of_char c :: nat) \<and> (of_char c :: nat) \<le> 57)"

definition digitsValue :: "string \<Rightarrow> nat" where
  "digitsValue s = foldl (\<lambda>n c. 10 * n + (of_char c - 48)) 0 s"

definition isArrayIndex :: "string \<Rightarrow> bool" where
  "isArrayIndex k =
     (k \<noteq> [] \<and> list_all isDigit k \<and> (k = ''0'' \<or> hd k \<noteq> CHR ''0'')
      \<and> digitsValue k \<le> 4294967294)"

fun insertIndexed :: "nat \<Rightarrow> string \<Rightarrow> 'v \<Rightarrow> (string \<times> 'v) list \<Rightarrow> (string \<times> 'v) list" where
  "insertIndexed n k v [] = [(k, v)]"
| "insertIndexed n k v ((k', v') # rest) =
     (if isArrayIndex k' \<and> digitsValue k' < n then (k', v') # insertIndexed n k v rest
      else (k, v) # (k', v') # rest)"

definition setProperty :: "string \<Rightarrow> 'v \<Rightarrow> (string \<times> 'v) list \<Rightarrow> (string \<times> 'v) list" where
  "setProperty k v props =
     (if map_of props k \<noteq> None then AList.update k v props
      else if isArrayIndex k then insertIndexed (digitsValue k) k v props
      else props @ [(k, v)])"

text \<open>
  \<^verbatim>\<open>catalog.strings[key]\<close> is a property read: when the object has no own property of
  that name, the read goes on to \<^verbatim>\<open>Object.prototype\<close>, whose members (functions, and
  the prototype object itself under \<^verbatim>\<open>__proto__\<close>) are truthy.
\<close>

definition objectPrototypeNames :: "string list" where
  "objectPrototypeNames =
     [''constructor'', ''__defineGetter__'', ''__defineSetter__'', ''hasOwnProperty'',
      ''__lookupGetter__'', ''__lookupSetter__'', ''isPrototypeOf'', ''propertyIsEnumerable'',
      ''toString'', ''valueOf'', ''__proto__'', ''toLocaleString'']"

text \<open>
  \<^verbatim>\<open>localizations.en = {...}\<close> on the value of an own, truthy \<^verbatim>\<open>localizations\<close>
  property: an object gets the property; on an array the property is set and never
  written by \<^verbatim>\<open>JSON.stringify\<close>; on a string, number or boolean the assignment throws
  (the module is strict code).
\<close>

fun setEn :: "string \<Rightarrow> 'n json \<Rightarrow> js_error + 'n json" where
  "setEn v (JObj ls) = Inr (JObj (AList.update ''en'' (stringUnitEn v) ls))"
| "setEn v (JArr xs) = Inr (JArr xs)"
| "setEn v other = Inl TypeError"

text \<open>
  The branch for an existing key, on the own truthy entry. \<open>polluted\<close> is whether
  \<^verbatim>\<open>Object.prototype\<close> has got a \<^verbatim>\<open>localizations\<close> property (see mergeKey): then an
  entry without its own \<^verbatim>\<open>localizations\<close> reads the inherited one, and the new value
  is stored there and not in the entry.
\<close>

fun updateEntry :: "bool \<Rightarrow> string \<Rightarrow> ('n::zero) json \<Rightarrow> js_error + 'n json" where
  "updateEntry polluted v (JObj ps) =
     (case map_of ps ''localizations'' of
        None \<Rightarrow>
          if polluted then Inr (JObj ps)
          else Inr (JObj (AList.update ''localizations'' (JObj [(''en'', stringUnitEn v)]) ps))
      | Some l \<Rightarrow>
          if truthy l then
            (case setEn v l of
               Inl e \<Rightarrow> Inl e
             | Inr l' \<Rightarrow> Inr (JObj (AList.update ''localizations'' l' ps)))
          else Inr (JObj (AList.update ''localizations'' (JObj [(''en'', stringUnitEn v)]) ps)))"
| "updateEntry polluted v (JArr xs) = Inr (JArr xs)"
| "updateEntry polluted v other = (if polluted then Inr other else Inl TypeError)"

text \<open>
  The names a read of \<^verbatim>\<open>catalog.strings[key]\<close> finds on the prototype when the object
  has no own property of that name: the members of \<^verbatim>\<open>Object.prototype\<close>, and
  \<^verbatim>\<open>localizations\<close> once the prototype has got that property.
\<close>

definition inheritedName :: "bool \<Rightarrow> string \<Rightarrow> bool" where
  "inheritedName polluted key =
     (key \<in> set objectPrototypeNames \<or> (polluted \<and> key = ''localizations''))"

text \<open>
  The body of \<^verbatim>\<open>Object.entries(newStrings).forEach\<close>, on the strings of the catalog and
  the \<open>polluted\<close> flag. For an inherited name the branch for an existing key runs on the
  inherited member: the catalog stays as it is, and under \<^verbatim>\<open>__proto__\<close> the
  prototype gets the \<^verbatim>\<open>localizations\<close> property. An entry that is replaced or
  updated keeps its place; a new key is placed as JavaScript orders it.
\<close>

definition mergeKey ::
  "string \<times> string \<Rightarrow> (string \<times> ('n::zero) json) list \<times> bool \<Rightarrow>
   js_error + (string \<times> 'n json) list \<times> bool" where
  "mergeKey kv st =
     (case kv of (key, v) \<Rightarrow> case st of (strings, polluted) \<Rightarrow>
        (case map_of strings key of
           Some entry \<Rightarrow>
             if truthy entry then
               (case updateEntry polluted v entry of
                  Inl e \<Rightarrow> Inl e
                | Inr entry' \<Rightarrow> Inr (setProperty key entry' strings, polluted))
             else Inr (setProperty key (freshEntry v) strings, polluted)
         | None \<Rightarrow>
             if inheritedName polluted key
             then Inr (strings, polluted \<or> key = ''__proto__'')
             else Inr (setProperty key (freshEntry v) strings, polluted)))"

fun mergeKeys ::
  "(string \<times> string) list \<Rightarrow> (string \<times> ('n::zero) json) list \<times> bool \<Rightarrow>
   js_error + (string \<times> 'n json) list \<times> bool" where
  "mergeKeys [] st = Inr st"
| "mergeKeys (kv # rest) st =
     (case mergeKey kv st of Inl e \<Rightarrow> Inl e | Inr st' \<Rightarrow> mergeKeys rest st')"

text \<open>
  The catalog handed to \<^verbatim>\<open>JSON.stringify\<close>, or the error that leaves the function;
  \<open>newStrings\<close> is \<^verbatim>\<open>Object.entries(newStrings)\<close>. The merge begins in a realm whose
  \<^verbatim>\<open>Object.prototype\<close> has no \<^verbatim>\<open>localizations\<close>.
\<close>

definition mergedCatalog ::
  "(string \<Rightarrow> ('n::zero) json option) \<Rightarrow> (string \<times> string) list \<Rightarrow> string option \<Rightarrow>
   js_error + 'n catalog" where
  "mergedCatalog parse newStrings existingCatalogContent =
     (let catalog = startCatalog parse existingCatalogContent
      in case mergeKeys newStrings (cat_strings catalog, False) of
           Inl e \<Rightarrow> Inl e
         | Inr (strings, polluted) \<Rightarrow> Inr (catalog\<lparr>cat_strings := strings\<rparr>))"

definition catalogJson :: "'n catalog \<Rightarrow> 'n json" where
  "catalogJson catalog =
     JObj [(''sourceLanguage'', cat_sourceLanguage catalog),
           (''strings'', JObj (cat_strings catalog)),
           (''version'', cat_version catalog)]"

definition mergeStringCatalog ::
  "(string \<Rightarrow> ('n::zero) json option) \<Rightarrow> ('n json \<Rightarrow> string) \<Rightarrow> (string \<times> string) list \<Rightarrow>
   string option \<Rightarrow> js_error + string" where
  "mergeStringCatalog parse stringify newStrings existingCatalogContent =
     (case mergedCatalog parse newStrings existingCatalogContent of
        Inl e \<Rightarrow> Inl e
      | Inr catalog \<Rightarrow> Inr (stringify (catalogJson catalog)))"

text \<open>
  The expected structure of a parsed catalog: an object whose \<^verbatim>\<open>strings\<close>, when present,
  is an object of entries; an entry is an object whose \<^verbatim>\<open>localizations\<close>, when present,
  is an object.
\<close>

definition wfEntry :: "'n json \<Rightarrow> bool" where
  "wfEntry e =
     (case e of
        JObj ps \<Rightarrow> (case map_of ps ''localizations'' of
                     None \<Rightarrow> True | Some (JObj ls) \<Rightarrow> True | Some other \<Rightarrow> False)
      | other \<Rightarrow> False)"

definition wfCatalog :: "'n json \<Rightarrow> bool" where
  "wfCatalog j =
     (case j of
        JObj ps \<Rightarrow> (case map_of ps ''strings'' of
                     None \<Rightarrow> True
                   | Some (JObj es) \<Rightarrow> list_all (\<lambda>(k, e). wfEntry e) es
                   | Some other \<Rightarrow> False)
      | other \<Rightarrow> False)"

text \<open>The languages of an entry, and its localization in one of them.\<close>

definition localizationsOf :: "'n json \<Rightarrow> (string \<times> 'n json) list" where
  "localizationsOf e =
     (case e of
        JObj ps \<Rightarrow> (case map_of ps ''localizations'' of Some (JObj ls) \<Rightarrow> ls | _ \<Rightarrow> [])
      | _ \<Rightarrow> [])"

definition localization :: "'n json \<Rightarrow> string \<Rightarrow> 'n json option" where
  "localization e lang = map_of (localizationsOf e) lang"

section \<open>Properties of mergeStringCatalog\<close>

definition catalogStrings :: "'n json \<Rightarrow> (string \<times> 'n json) list" where
  "catalogStrings j =
     (case j of
        JObj ps \<Rightarrow> (case map_of ps ''strings'' of Some (JObj es) \<Rightarrow> es | _ \<Rightarrow> [])
      | _ \<Rightarrow> [])"

definition allWf :: "(string \<times> 'n json) list \<Rightarrow> bool" where
  "allWf strings = list_all (\<lambda>(k, e). wfEntry e) strings"

text \<open>The entry after the merge of a value, from the entry before (if any).\<close>

definition mergedEntry :: "string \<Rightarrow> 'n json option \<Rightarrow> 'n json" where
  "mergedEntry v before =
     (case before of
        Some (JObj ps) \<Rightarrow>
          JObj (AList.update ''localizations''
                 (JObj (AList.update ''en'' (stringUnitEn v) (localizationsOf (JObj ps)))) ps)
      | _ \<Rightarrow> freshEntry v)"

lemma copyExisting_wf:
  "wfCatalog j \<Longrightarrow> cat_strings (copyExisting j) = catalogStrings j"
  by (auto simp: wfCatalog_def copyExisting_def catalogStrings_def baseCatalog_def Let_def
        split: json.splits option.splits)

lemma map_of_insertIndexed:
  "map_of (insertIndexed (digitsValue k) k v props) = (map_of props)(k \<mapsto> v)"
proof (induction props)
  case Nil
  show ?case by simp
next
  case (Cons p props)
  obtain k' v' where p: "p = (k', v')" by (cases p)
  show ?case
  proof (cases "isArrayIndex k' \<and> digitsValue k' < digitsValue k")
    case True
    then have "k' \<noteq> k" by auto
    with True Cons.IH show ?thesis unfolding p by (auto intro!: ext)
  next
    case False
    then show ?thesis unfolding p by auto
  qed
qed

lemma map_of_setProperty: "map_of (setProperty k v props) = (map_of props)(k \<mapsto> v)"
proof (cases "map_of props k")
  case None
  have "map_of (props @ [(k, v)]) = (map_of props)(k \<mapsto> v)"
  proof
    fix x
    from None show "map_of (props @ [(k, v)]) x = ((map_of props)(k \<mapsto> v)) x"
      by (cases "map_of props x") (auto simp: map_add_def)
  qed
  with None show ?thesis by (simp add: setProperty_def map_of_insertIndexed)
next
  case (Some e)
  then show ?thesis by (simp add: setProperty_def update_conv')
qed

lemma list_all_insertIndexed:
  "list_all P props \<Longrightarrow> P (k, v) \<Longrightarrow> list_all P (insertIndexed n k v props)"
  by (induction props) auto

lemma allWf_update: "allWf s \<Longrightarrow> wfEntry e \<Longrightarrow> allWf (AList.update k e s)"
  unfolding allWf_def by (induction s) auto

lemma allWf_setProperty: "allWf s \<Longrightarrow> wfEntry e \<Longrightarrow> allWf (setProperty k e s)"
  using allWf_update [of s e k]
  by (auto simp: setProperty_def allWf_def intro: list_all_insertIndexed)

lemma allWf_lookup: "allWf s \<Longrightarrow> map_of s k = Some e \<Longrightarrow> wfEntry e"
  unfolding allWf_def list_all_iff by (auto dest: map_of_SomeD)

lemma wfEntry_fresh: "wfEntry (freshEntry v)"
  by (simp add: wfEntry_def freshEntry_def)

lemma updateEntry_wf:
  assumes "wfEntry e"
  shows "\<exists>e'. updateEntry polluted v e = Inr e' \<and> wfEntry e'
           \<and> (\<not> polluted \<longrightarrow> e' = mergedEntry v (Some e))"
proof -
  from assms obtain ps where e: "e = JObj ps" by (auto simp: wfEntry_def split: json.splits)
  show ?thesis
  proof (cases "map_of ps ''localizations''")
    case None
    then show ?thesis using e assms
      by (auto simp: wfEntry_def mergedEntry_def localizationsOf_def update_conv')
  next
    case (Some l)
    with assms e obtain ls where l: "l = JObj ls"
      by (auto simp: wfEntry_def split: json.splits)
    with Some e show ?thesis
      by (auto simp: wfEntry_def mergedEntry_def localizationsOf_def update_conv')
  qed
qed

lemma wfEntry_truthy: "wfEntry e \<Longrightarrow> truthy e"
  by (auto simp: wfEntry_def split: json.splits)

lemma mergeKey_retains:
  assumes "mergeKey kv (s, p) = Inr (s', p')"
  shows "(map_of s k \<noteq> None \<longrightarrow> map_of s' k \<noteq> None) \<and> (k \<noteq> fst kv \<longrightarrow> map_of s' k = map_of s k)"
proof -
  obtain key v where kv: "kv = (key, v)" by (cases kv)
  from assms show ?thesis unfolding kv mergeKey_def
    by (auto simp: map_of_setProperty split: option.splits if_splits sum.splits)
qed

lemma mergeKeys_retains:
  "mergeKeys new (s, p) = Inr (s', p') \<Longrightarrow>
     (map_of s k \<noteq> None \<longrightarrow> map_of s' k \<noteq> None)
   \<and> (k \<notin> fst ` set new \<longrightarrow> map_of s' k = map_of s k)"
proof (induction new arbitrary: s p)
  case Nil
  then show ?case by simp
next
  case (Cons kv new)
  from Cons.prems obtain s1 p1 where
    step: "mergeKey kv (s, p) = Inr (s1, p1)" and rest: "mergeKeys new (s1, p1) = Inr (s', p')"
    by (auto split: sum.splits)
  from mergeKey_retains [OF step, of k] Cons.IH [OF rest] show ?case by auto
qed

lemma mergeKey_wf:
  assumes "allWf s"
  shows "\<exists>s' p'. mergeKey kv (s, p) = Inr (s', p') \<and> allWf s'"
proof -
  obtain key v where kv: "kv = (key, v)" by (cases kv)
  show ?thesis
  proof (cases "map_of s key")
    case None
    with assms show ?thesis unfolding kv mergeKey_def
      by (auto intro: allWf_setProperty wfEntry_fresh)
  next
    case (Some e)
    with assms have w: "wfEntry e" by (rule allWf_lookup)
    from updateEntry_wf [OF w, of p v] obtain e' where
      "updateEntry p v e = Inr e'" "wfEntry e'" by blast
    with Some assms wfEntry_truthy [OF w] show ?thesis unfolding kv mergeKey_def
      by (auto intro: allWf_setProperty)
  qed
qed

lemma mergeKeys_wf:
  "allWf s \<Longrightarrow> \<exists>s' p'. mergeKeys new (s, p) = Inr (s', p') \<and> allWf s'"
proof (induction new arbitrary: s p)
  case Nil
  then show ?case by simp
next
  case (Cons kv new)
  from mergeKey_wf [OF Cons.prems, of kv p] obtain s1 p1 where
    "mergeKey kv (s, p) = Inr (s1, p1)" "allWf s1" by blast
  with Cons.IH [of s1 p1] show ?case by auto
qed

lemma mergeKey_own_name:
  assumes "allWf s" and "fst kv \<notin> set objectPrototypeNames"
  shows "\<exists>s'. mergeKey kv (s, False) = Inr (s', False) \<and> allWf s'
           \<and> map_of s' (fst kv) = Some (mergedEntry (snd kv) (map_of s (fst kv)))"
proof -
  obtain key v where kv: "kv = (key, v)" by (cases kv)
  show ?thesis
  proof (cases "map_of s key")
    case None
    with assms show ?thesis unfolding kv mergeKey_def
      by (auto simp: map_of_setProperty mergedEntry_def inheritedName_def
            intro: allWf_setProperty wfEntry_fresh)
  next
    case (Some e)
    with assms have w: "wfEntry e" by (auto intro: allWf_lookup)
    from updateEntry_wf [OF w, of False v] obtain e' where
      "updateEntry False v e = Inr e'" "wfEntry e'" "e' = mergedEntry v (Some e)" by blast
    with Some assms wfEntry_truthy [OF w] show ?thesis unfolding kv mergeKey_def
      by (auto simp: map_of_setProperty intro: allWf_setProperty)
  qed
qed

lemma mergeKeys_own_names:
  assumes "allWf s" and "distinct (map fst new)"
    and "\<forall>k \<in> fst ` set new. k \<notin> set objectPrototypeNames"
  shows "\<exists>s'. mergeKeys new (s, False) = Inr (s', False) \<and> allWf s'
           \<and> (\<forall>(k, v) \<in> set new. map_of s' k = Some (mergedEntry v (map_of s k)))"
  using assms
proof (induction new arbitrary: s)
  case Nil
  then show ?case by simp
next
  case (Cons kv new)
  obtain key v where kv: "kv = (key, v)" by (cases kv)
  from Cons.prems kv have own: "fst kv \<notin> set objectPrototypeNames" by simp
  from mergeKey_own_name [OF Cons.prems(1) own] kv obtain s1 where
    s1: "mergeKey kv (s, False) = Inr (s1, False)" "allWf s1"
        "map_of s1 key = Some (mergedEntry v (map_of s key))"
    by auto
  from Cons.prems have d: "distinct (map fst new)"
    and o: "\<forall>k \<in> fst ` set new. k \<notin> set objectPrototypeNames"
    and fresh: "key \<notin> fst ` set new" using kv by auto
  from Cons.IH [OF s1(2) d o] obtain s' where
    s': "mergeKeys new (s1, False) = Inr (s', False)" "allWf s'"
        "\<forall>(k, v) \<in> set new. map_of s' k = Some (mergedEntry v (map_of s1 k))"
    by blast
  from mergeKeys_retains [OF s'(1), of key] fresh s1(3)
  have here: "map_of s' key = Some (mergedEntry v (map_of s key))" by simp
  have others: "\<forall>(k, v) \<in> set new. map_of s' k = Some (mergedEntry v (map_of s k))"
  proof (intro ballI, clarify)
    fix k' v'
    assume m: "(k', v') \<in> set new"
    with fresh have "k' \<noteq> key" by force
    with mergeKey_retains [OF s1(1), of k'] kv have "map_of s1 k' = map_of s k'" by simp
    with s'(3) m show "map_of s' k' = Some (mergedEntry v' (map_of s k'))" by auto
  qed
  from s1(1) s'(1,2) here others kv show ?case by auto
qed

lemma mergedEntry_localization:
  "localization (mergedEntry v before) lang =
     (if lang = ''en'' then Some (stringUnitEn v)
      else case before of Some (JObj ps) \<Rightarrow> localization (JObj ps) lang | _ \<Rightarrow> None)"
  by (auto simp: mergedEntry_def localization_def localizationsOf_def freshEntry_def update_conv'
        split: option.splits json.splits)

lemma mergedEntry_other_members:
  "name \<noteq> ''localizations'' \<Longrightarrow>
   getMember (mergedEntry v (Some (JObj ps))) name = getMember (JObj ps) name"
  by (simp add: mergedEntry_def update_conv')

lemma startCatalog_wf:
  "text \<noteq> [] \<Longrightarrow> parse text = Some j \<Longrightarrow> wfCatalog j \<Longrightarrow>
   cat_strings (startCatalog parse (Some text)) = catalogStrings j"
  by (auto simp: startCatalog_def copyExisting_wf wfCatalog_def)

lemma catalogStrings_wf: "wfCatalog j \<Longrightarrow> allWf (catalogStrings j)"
  by (auto simp: wfCatalog_def catalogStrings_def allWf_def split: json.splits option.splits)

text \<open>
  What the merge does for keys that are no names of \<^verbatim>\<open>Object.prototype\<close>, on a catalog
  of the expected structure: an existing key gets the new en localization and keeps every
  other language and every other member of its entry; a new key gets a fresh entry.
\<close>

lemma merge_updates_only_en:
  assumes "text \<noteq> []" "parse text = Some j" "wfCatalog j"
    and "distinct (map fst newStrings)"
    and "\<forall>k \<in> fst ` set newStrings. k \<notin> set objectPrototypeNames"
  shows "\<exists>out. mergedCatalog parse newStrings (Some text) = Inr out
    \<and> (\<forall>(k, v) \<in> set newStrings.
          (\<forall>e. map_of (catalogStrings j) k = Some e \<longrightarrow>
             (\<exists>e'. map_of (cat_strings out) k = Some e'
                \<and> localization e' ''en'' = Some (stringUnitEn v)
                \<and> (\<forall>lang. lang \<noteq> ''en'' \<longrightarrow> localization e' lang = localization e lang)
                \<and> (\<forall>name. name \<noteq> ''localizations'' \<longrightarrow> getMember e' name = getMember e name)))
        \<and> (map_of (catalogStrings j) k = None \<longrightarrow>
             map_of (cat_strings out) k = Some (freshEntry v)))"
proof -
  let ?s = "catalogStrings j"
  from assms(1-3) have start: "cat_strings (startCatalog parse (Some text)) = ?s"
    by (rule startCatalog_wf)
  from mergeKeys_own_names [OF catalogStrings_wf [OF assms(3)] assms(4,5)] obtain s' where
    s': "mergeKeys newStrings (?s, False) = Inr (s', False)"
        "\<forall>(k, v) \<in> set newStrings. map_of s' k = Some (mergedEntry v (map_of ?s k))"
    by blast
  let ?out = "(startCatalog parse (Some text))\<lparr>cat_strings := s'\<rparr>"
  from s'(1) start have r: "mergedCatalog parse newStrings (Some text) = Inr ?out"
    by (simp add: mergedCatalog_def)
  have "\<forall>(k, v) \<in> set newStrings.
          (\<forall>e. map_of ?s k = Some e \<longrightarrow>
             (\<exists>e'. map_of (cat_strings ?out) k = Some e'
                \<and> localization e' ''en'' = Some (stringUnitEn v)
                \<and> (\<forall>lang. lang \<noteq> ''en'' \<longrightarrow> localization e' lang = localization e lang)
                \<and> (\<forall>name. name \<noteq> ''localizations'' \<longrightarrow> getMember e' name = getMember e name)))
        \<and> (map_of ?s k = None \<longrightarrow> map_of (cat_strings ?out) k = Some (freshEntry v))"
  proof (intro ballI, clarify, intro conjI allI impI)
    fix k v e
    assume m: "(k, v) \<in> set newStrings" and e: "map_of ?s k = Some e"
    from allWf_lookup [OF catalogStrings_wf [OF assms(3)] e] obtain ps where ps: "e = JObj ps"
      by (auto simp: wfEntry_def split: json.splits)
    from s'(2) m e have "map_of s' k = Some (mergedEntry v (Some e))" by auto
    then show "\<exists>e'. map_of (cat_strings ?out) k = Some e'
                \<and> localization e' ''en'' = Some (stringUnitEn v)
                \<and> (\<forall>lang. lang \<noteq> ''en'' \<longrightarrow> localization e' lang = localization e lang)
                \<and> (\<forall>name. name \<noteq> ''localizations'' \<longrightarrow> getMember e' name = getMember e name)"
      unfolding ps by (simp add: mergedEntry_localization mergedEntry_other_members)
  next
    fix k v
    assume m: "(k, v) \<in> set newStrings" and e: "map_of ?s k = None"
    from s'(2) m e show "map_of (cat_strings ?out) k = Some (freshEntry v)"
      by (auto simp: mergedEntry_def)
  qed
  with r show ?thesis by blast
qed

text \<open>
  What the merge does when there is no usable existing text, for keys that are no names
  of \<^verbatim>\<open>Object.prototype\<close>: the catalog has the default language and version and exactly
  the fresh entries of the new strings.
\<close>

lemma merge_into_empty_catalog:
  assumes "content = None \<or> content = Some []
      \<or> (\<exists>t. content = Some t \<and> (parse t = None \<or> parse t = Some JNull))"
    and "distinct (map fst newStrings)"
    and "\<forall>k \<in> fst ` set newStrings. k \<notin> set objectPrototypeNames"
  shows "\<exists>out. mergedCatalog parse newStrings content = Inr out
    \<and> cat_sourceLanguage out = JStr ''en'' \<and> cat_version out = JStr ''1.0''
    \<and> (\<forall>k. map_of (cat_strings out) k = map_option freshEntry (map_of newStrings k))"
proof -
  from assms(1) have start: "startCatalog parse content = baseCatalog"
    by (auto simp: startCatalog_def)
  have w: "allWf ([] :: (string \<times> 'a json) list)" by (simp add: allWf_def)
  from mergeKeys_own_names [OF w assms(2,3)] obtain s' :: "(string \<times> 'a json) list" where
    s': "mergeKeys newStrings ([], False) = Inr (s', False)"
        "\<forall>(k, v) \<in> set newStrings. map_of s' k = Some (mergedEntry v (map_of [] k))"
    by blast
  have "map_of s' k = map_option freshEntry (map_of newStrings k)" for k
  proof (cases "map_of newStrings k")
    case None
    then have "k \<notin> fst ` set newStrings" by (simp add: map_of_eq_None_iff)
    with mergeKeys_retains [OF s'(1), of k] None show ?thesis by simp
  next
    case (Some v)
    then have "(k, v) \<in> set newStrings" by (rule map_of_SomeD)
    with s'(2) Some show ?thesis by (auto simp: mergedEntry_def)
  qed
  with s'(1) start show ?thesis
    by (simp add: mergedCatalog_def baseCatalog_def)
qed

text \<open>
  Claim C3. Whenever the merge returns a catalog, every key of the catalog it started from
  is a key of the result, and a key that the new strings do not name has its entry
  unchanged. For an existing text that parses to a catalog of the expected structure the
  merge does return a catalog, whatever the new strings are, so every key of the parsed
  catalog is in the result, with its entry unchanged when the new strings do not name it.
  Merging the empty map returns the starting catalog as it is. The text returned is this
  catalog serialized.
\<close>

theorem merge_never_deletes_keys:
  "(mergedCatalog parse newStrings content = Inr out \<longrightarrow>
       (\<forall>k. map_of (cat_strings (startCatalog parse content)) k \<noteq> None
              \<longrightarrow> map_of (cat_strings out) k \<noteq> None)
     \<and> (\<forall>k. k \<notin> fst ` set newStrings
              \<longrightarrow> map_of (cat_strings out) k = map_of (cat_strings (startCatalog parse content)) k))
   \<and> (text \<noteq> [] \<and> parse text = Some j \<and> wfCatalog j \<longrightarrow>
        (\<exists>out'. mergedCatalog parse newStrings (Some text) = Inr out'
           \<and> (\<forall>k e. map_of (catalogStrings j) k = Some e \<longrightarrow>
                  map_of (cat_strings out') k \<noteq> None
                \<and> (k \<notin> fst ` set newStrings \<longrightarrow> map_of (cat_strings out') k = Some e))))
   \<and> mergedCatalog parse [] content = Inr (startCatalog parse content)
   \<and> mergeStringCatalog parse stringify newStrings content =
       (case mergedCatalog parse newStrings content of
          Inl e \<Rightarrow> Inl e | Inr catalog \<Rightarrow> Inr (stringify (catalogJson catalog)))"
proof (intro conjI impI)
  assume r: "mergedCatalog parse newStrings content = Inr out"
  then obtain s' p' where
    m: "mergeKeys newStrings (cat_strings (startCatalog parse content), False) = Inr (s', p')"
    and o: "cat_strings out = s'"
    by (auto simp: mergedCatalog_def Let_def split: sum.splits)
  from mergeKeys_retains [OF m] o
  show "\<forall>k. map_of (cat_strings (startCatalog parse content)) k \<noteq> None
              \<longrightarrow> map_of (cat_strings out) k \<noteq> None"
    by blast
  from mergeKeys_retains [OF m] o
  show "\<forall>k. k \<notin> fst ` set newStrings
              \<longrightarrow> map_of (cat_strings out) k = map_of (cat_strings (startCatalog parse content)) k"
    by blast
next
  assume a: "text \<noteq> [] \<and> parse text = Some j \<and> wfCatalog j"
  then have start: "cat_strings (startCatalog parse (Some text)) = catalogStrings j"
    by (simp add: startCatalog_wf)
  from a have w: "allWf (catalogStrings j)" by (simp add: catalogStrings_wf)
  from mergeKeys_wf [OF w, of newStrings False] obtain s' p' where
    m: "mergeKeys newStrings (catalogStrings j, False) = Inr (s', p')" by blast
  let ?out = "(startCatalog parse (Some text))\<lparr>cat_strings := s'\<rparr>"
  from m start have r: "mergedCatalog parse newStrings (Some text) = Inr ?out"
    by (simp add: mergedCatalog_def)
  have cs: "cat_strings ?out = s'" by simp
  have "\<forall>k e. map_of (catalogStrings j) k = Some e \<longrightarrow>
                  map_of (cat_strings ?out) k \<noteq> None
                \<and> (k \<notin> fst ` set newStrings \<longrightarrow> map_of (cat_strings ?out) k = Some e)"
    unfolding cs
  proof (intro allI impI conjI)
    fix k e
    assume e: "map_of (catalogStrings j) k = Some e"
    with mergeKeys_retains [OF m, of k] show "map_of s' k \<noteq> None" by simp
    assume "k \<notin> fst ` set newStrings"
    with mergeKeys_retains [OF m, of k] e show "map_of s' k = Some e" by simp
  qed
  with r show "\<exists>out'. mergedCatalog parse newStrings (Some text) = Inr out'
           \<and> (\<forall>k e. map_of (catalogStrings j) k = Some e \<longrightarrow>
                  map_of (cat_strings out') k \<noteq> None
                \<and> (k \<notin> fst ` set newStrings \<longrightarrow> map_of (cat_strings out') k = Some e))"
    by blast
next
  show "mergedCatalog parse [] content = Inr (startCatalog parse content)"
    by (simp add: mergedCatalog_def)
next
  show "mergeStringCatalog parse stringify newStrings content =
       (case mergedCatalog parse newStrings content of
          Inl e \<Rightarrow> Inl e | Inr catalog \<Rightarrow> Inr (stringify (catalogJson catalog)))"
    by (simp add: mergeStringCatalog_def)
qed

theorem merge_never_deletes_keys_witness:
  "(\<exists>out'. mergedCatalog
       (\<lambda>t. Some (JObj [(''sourceLanguage'', JStr ''en''),
                         (''strings'', JObj [(''old.key'',
                            JObj [(''extractionState'', JStr ''manual''),
                                  (''localizations'', JObj [(''en'', stringUnitEn ''Old''),
                                                            (''es'', stringUnitEn ''Vieja'')])])]),
                         (''version'', JStr ''1.0'')] :: int json))
       [(''new.key'', ''New Key'')] (Some ''catalog'') = Inr out'
     \<and> map_of (cat_strings out') ''old.key''
         = Some (JObj [(''extractionState'', JStr ''manual''),
                       (''localizations'', JObj [(''en'', stringUnitEn ''Old''),
                                                 (''es'', stringUnitEn ''Vieja'')])]))
   \<and> mergedCatalog
       (\<lambda>t. Some (JObj [(''sourceLanguage'', JStr ''en''),
                         (''strings'', JObj [(''old.key'',
                            JObj [(''extractionState'', JStr ''manual''),
                                  (''localizations'', JObj [(''en'', stringUnitEn ''Old''),
                                                            (''es'', stringUnitEn ''Vieja'')])])]),
                         (''version'', JStr ''1.0'')] :: int json))
       [] (Some ''catalog'')
     = Inr \<lparr>cat_sourceLanguage = JStr ''en'',
            cat_strings = [(''old.key'',
                            JObj [(''extractionState'', JStr ''manual''),
                                  (''localizations'', JObj [(''en'', stringUnitEn ''Old''),
                                                            (''es'', stringUnitEn ''Vieja'')])])],
            cat_version = JStr ''1.0''\<rparr>"
proof -
  let ?e = "JObj [(''extractionState'', JStr ''manual''),
                  (''localizations'', JObj [(''en'', stringUnitEn ''Old''),
                                            (''es'', stringUnitEn ''Vieja'')])] :: int json"
  let ?j = "JObj [(''sourceLanguage'', JStr ''en''), (''strings'', JObj [(''old.key'', ?e)]),
                  (''version'', JStr ''1.0'')] :: int json"
  let ?p = "\<lambda>t :: string. Some ?j"
  let ?new = "[(''new.key'', ''New Key'')]"
  have w: "wfCatalog ?j" by (simp add: wfCatalog_def wfEntry_def)
  have c: "catalogStrings ?j = [(''old.key'', ?e)]" by (simp add: catalogStrings_def)
  have h: "''catalog'' \<noteq> [] \<and> ?p ''catalog'' = Some ?j \<and> wfCatalog ?j" using w by simp
  note t = merge_never_deletes_keys [of ?p ?new "Some ''catalog''" _ "''catalog''" ?j]
  from t h obtain out' where
    o: "mergedCatalog ?p ?new (Some ''catalog'') = Inr out'"
       "\<forall>k e. map_of (catalogStrings ?j) k = Some e \<longrightarrow>
                  map_of (cat_strings out') k \<noteq> None
                \<and> (k \<notin> fst ` set ?new \<longrightarrow> map_of (cat_strings out') k = Some e)"
    by blast
  from o(2) have "map_of (cat_strings out') ''old.key'' = Some ?e"
    unfolding c by simp
  with o(1) have first: "\<exists>out'. mergedCatalog ?p ?new (Some ''catalog'') = Inr out'
     \<and> map_of (cat_strings out') ''old.key'' = Some ?e" by blast
  have "mergedCatalog ?p [] (Some ''catalog'') = Inr (startCatalog ?p (Some ''catalog''))"
    using merge_never_deletes_keys [of ?p "[]" "Some ''catalog''"] by blast
  then have second: "mergedCatalog ?p [] (Some ''catalog'')
     = Inr \<lparr>cat_sourceLanguage = JStr ''en'', cat_strings = [(''old.key'', ?e)],
            cat_version = JStr ''1.0''\<rparr>"
    by (simp add: startCatalog_def copyExisting_def baseCatalog_def)
  from first second show ?thesis by (rule conjI)
qed

text \<open>
  Claim C2, at an input where the code departs from it. The existing catalog has the key
  k with an English and a Spanish localization; the new strings name k and toString. The
  key k gets the new English text and keeps the Spanish one. The key toString is absent
  from the existing catalog, yet no entry is inserted for it: the read
  \<^verbatim>\<open>catalog.strings["toString"]\<close> finds the function inherited from
  \<^verbatim>\<open>Object.prototype\<close>, which is truthy, and the branch for an existing key runs on it.
\<close>

theorem merge_skips_inherited_name:
  "mergedCatalog
     (\<lambda>t. Some (JObj [(''strings'',
              JObj [(''k'', JObj [(''localizations'',
                                    JObj [(''en'', stringUnitEn ''Old''),
                                          (''es'', stringUnitEn ''Vieja'')])])])] :: int json))
     [(''k'', ''New''), (''toString'', ''T'')] (Some ''catalog'')
   = Inr \<lparr>cat_sourceLanguage = JStr ''en'',
          cat_strings = [(''k'', JObj [(''localizations'',
                                         JObj [(''en'', stringUnitEn ''New''),
                                               (''es'', stringUnitEn ''Vieja'')])])],
          cat_version = JStr ''1.0''\<rparr>"
  by (simp add: mergedCatalog_def startCatalog_def copyExisting_def baseCatalog_def mergeKey_def
        objectPrototypeNames_def inheritedName_def setProperty_def)

text \<open>
  Claim C6, at an input where the code departs from it. Without an existing text, or with
  a text that does not parse, the merge starts from the empty catalog with the default
  language and version and returns without an error; but for the new strings
  \<^verbatim>\<open>{constructor: "X"}\<close> the catalog it returns has no entry at all, where the claim
  has exactly the entry derived for the key.
\<close>

theorem merge_into_empty_skips_inherited_name:
  "mergedCatalog parse [(''constructor'', ''X'')] None = Inr baseCatalog
   \<and> mergedCatalog (\<lambda>t. None) [(''constructor'', ''X'')] (Some ''not json'')
       = Inr (baseCatalog :: int catalog)
   \<and> cat_strings (baseCatalog :: int catalog) = []"
  by (simp add: mergedCatalog_def startCatalog_def baseCatalog_def mergeKey_def
        objectPrototypeNames_def inheritedName_def)

end
